theory Spec2Isabelle
  imports Main "HOL-Library.Sublist"
begin

section \<open>The registry validator of onflow/rewtf-registry\<close>

text \<open>
  A shallow embedding of \<^verbatim>\<open>scripts/bin/validate-registry.ts\<close>. The file holds two
  versions of the class \<^verbatim>\<open>RegistryValidator\<close>: the registry variant (lines 1-328, with
  the Flow ecosystem check and optional wallets) and the strict variant (lines 329-521,
  wallets required, no ecosystem check). Definitions of the registry variant keep the
  source's names; those of the strict variant that differ carry the suffix \<open>_strict\<close>.
\<close>

subsection \<open>Strings\<close>

text \<open>
  A JavaScript string is modelled as an Isabelle \<^typ>\<open>string\<close>, each \<^typ>\<open>char\<close> read as
  one code unit in the range U+0000 to U+00FF. Within that range \<^verbatim>\<open>trim\<close> and
  \<^verbatim>\<open>toLowerCase\<close> are exact; text with code units beyond U+00FF is outside the model.
\<close>

definition is_ws :: "char \<Rightarrow> bool" where
  \<comment> \<open>WhiteSpace and LineTerminator of ECMAScript below U+0100: TAB, LF, VT, FF, CR, SP, NBSP\<close>
  "is_ws c = (c \<in> set [CHR 0x09, CHR 0x0A, CHR 0x0B, CHR 0x0C, CHR 0x0D, CHR 0x20, CHR 0xA0])"

definition trim :: "string \<Rightarrow> string" where
  "trim s = rev (dropWhile is_ws (rev (dropWhile is_ws s)))"

definition upper_chars :: string where
  "upper_chars = ''ABCDEFGHIJKLMNOPQRSTUVWXYZ'' @
     [CHR 0xC0, CHR 0xC1, CHR 0xC2, CHR 0xC3, CHR 0xC4, CHR 0xC5, CHR 0xC6, CHR 0xC7,
      CHR 0xC8, CHR 0xC9, CHR 0xCA, CHR 0xCB, CHR 0xCC, CHR 0xCD, CHR 0xCE, CHR 0xCF,
      CHR 0xD0, CHR 0xD1, CHR 0xD2, CHR 0xD3, CHR 0xD4, CHR 0xD5, CHR 0xD6,
      CHR 0xD8, CHR 0xD9, CHR 0xDA, CHR 0xDB, CHR 0xDC, CHR 0xDD, CHR 0xDE]"

definition lower_chars :: string where
  "lower_chars = ''abcdefghijklmnopqrstuvwxyz'' @
     [CHR 0xE0, CHR 0xE1, CHR 0xE2, CHR 0xE3, CHR 0xE4, CHR 0xE5, CHR 0xE6, CHR 0xE7,
      CHR 0xE8, CHR 0xE9, CHR 0xEA, CHR 0xEB, CHR 0xEC, CHR 0xED, CHR 0xEE, CHR 0xEF,
      CHR 0xF0, CHR 0xF1, CHR 0xF2, CHR 0xF3, CHR 0xF4, CHR 0xF5, CHR 0xF6,
      CHR 0xF8, CHR 0xF9, CHR 0xFA, CHR 0xFB, CHR 0xFC, CHR 0xFD, CHR 0xFE]"

definition toLowerCase :: "string \<Rightarrow> string" where
  "toLowerCase s =
     map (\<lambda>c. case map_of (zip upper_chars lower_chars) c of Some l \<Rightarrow> l | None \<Rightarrow> c) s"

fun str_includes :: "string \<Rightarrow> string \<Rightarrow> bool" where
  \<comment> \<open>\<^verbatim>\<open>s.includes(sub)\<close>\<close>
  "str_includes [] sub = (sub = [])"
| "str_includes (c # cs) sub = (take (length sub) (c # cs) = sub \<or> str_includes cs sub)"

definition quoted :: "string \<Rightarrow> string" where
  \<comment> \<open>the text between two apostrophes, as in the message templates\<close>
  "quoted s = CHR 0x27 # s @ [CHR 0x27]"

fun string_of_nat :: "nat \<Rightarrow> string" where
  "string_of_nat n =
     (if n < 10 then [''0123456789'' ! n]
      else string_of_nat (n div 10) @ [''0123456789'' ! (n mod 10)])"

declare string_of_nat.simps [simp del]

subsection \<open>Values\<close>

text \<open>
  What \<^verbatim>\<open>yaml.load\<close> and \<^verbatim>\<open>JSON.parse\<close> return: the values of the core schema. Numbers
  are integers that a double holds exactly (up to 2^53 in magnitude, rendered in decimal;
  floats, larger integers and dates are outside the model), a mapping is an association
  list of its own properties, and values are trees (no aliasing cycles).
\<close>

datatype jsvalue =
    JUndefined
  | JNull
  | JBool bool
  | JNumber int
  | JString string
  | JArray "jsvalue list"
  | JObject "(string \<times> jsvalue) list"

fun truthy :: "jsvalue \<Rightarrow> bool" where
  "truthy JUndefined = False"
| "truthy JNull = False"
| "truthy (JBool b) = b"
| "truthy (JNumber n) = (n \<noteq> 0)"
| "truthy (JString s) = (s \<noteq> [])"
| "truthy (JArray xs) = True"
| "truthy (JObject kvs) = True"

fun typeof_object :: "jsvalue \<Rightarrow> bool" where
  \<comment> \<open>\<^verbatim>\<open>typeof v === "object"\<close>: null, arrays and mappings\<close>
  "typeof_object JNull = True"
| "typeof_object (JArray xs) = True"
| "typeof_object (JObject kvs) = True"
| "typeof_object v = False"

fun get_prop :: "jsvalue \<Rightarrow> string \<Rightarrow> jsvalue option" where
  \<comment> \<open>\<^verbatim>\<open>v.k\<close> for a key \<open>k\<close> that no prototype defines (every key the validator reads is
      one): \<open>None\<close> is the TypeError of reading a property of null or undefined.\<close>
  "get_prop JUndefined k = None"
| "get_prop JNull k = None"
| "get_prop (JObject kvs) k = (case map_of kvs k of Some v \<Rightarrow> Some v | None \<Rightarrow> Some JUndefined)"
| "get_prop v k = Some JUndefined"

definition type_error :: string where
  \<comment> \<open>how a caught TypeError renders in a template; the engine's wording after the name
      is not modelled\<close>
  "type_error = ''TypeError''"

fun js_String :: "jsvalue \<Rightarrow> string option" and js_join :: "jsvalue list \<Rightarrow> string option" where
  \<comment> \<open>the conversion \<^verbatim>\<open>${v}\<close> of a template literal; \<open>None\<close> is the TypeError thrown for
      a mapping whose own property \<^verbatim>\<open>toString\<close> shadows the inherited method\<close>
  "js_String JUndefined = Some ''undefined''"
| "js_String JNull = Some ''null''"
| "js_String (JBool b) = Some (if b then ''true'' else ''false'')"
| "js_String (JNumber n) =
     Some (if n < 0 then CHR ''-'' # string_of_nat (nat (- n)) else string_of_nat (nat n))"
| "js_String (JString s) = Some s"
| "js_String (JArray xs) = js_join xs"
| "js_String (JObject kvs) =
     (if list_ex (\<lambda>kv. fst kv = ''toString'') kvs then None else Some ''[object Object]'')"
| "js_join [] = Some []"
| "js_join (x # xs) =
     (case (case x of JUndefined \<Rightarrow> Some [] | JNull \<Rightarrow> Some [] | _ \<Rightarrow> js_String x) of
        None \<Rightarrow> None
      | Some a \<Rightarrow>
          (if xs = [] then Some a
           else (case js_join xs of None \<Rightarrow> None | Some b \<Rightarrow> Some (a @ '','' @ b))))"

subsection \<open>The regular expressions\<close>

definition github_prefix :: string where
  "github_prefix = ''https://github.com/''"

definition not_slash :: "char \<Rightarrow> bool" where
  "not_slash c = (c \<noteq> CHR ''/'')"

definition match_here :: "string \<Rightarrow> (string \<times> string) option" where
  \<comment> \<open>\<^verbatim>\<open>/https:\/\/github\.com\/([^/]+)\/([^/]+)/\<close> tried at the first position of \<open>s\<close>: both
      groups are greedy, and giving characters back never helps, since a shorter first
      group is followed by a character that is not a slash\<close>
  "match_here s =
     (if take (length github_prefix) s = github_prefix then
        (let rest = drop (length github_prefix) s;
             owner = takeWhile not_slash rest;
             after = dropWhile not_slash rest
         in if owner = [] \<or> after = [] then None
            else (let repo = takeWhile not_slash (tl after)
                  in if repo = [] then None else Some (owner, repo)))
      else None)"

fun match_github :: "string \<Rightarrow> (string \<times> string) option" where
  \<comment> \<open>\<^verbatim>\<open>url.match(...)\<close> without anchors: the leftmost position where the pattern matches\<close>
  "match_github [] = None"
| "match_github (c # cs) =
     (case match_here (c # cs) of Some m \<Rightarrow> Some m | None \<Rightarrow> match_github cs)"

definition strip_git :: "string \<Rightarrow> string" where
  \<comment> \<open>\<^verbatim>\<open>repo.replace(/\.git$/, "")\<close>\<close>
  "strip_git repo =
     (if 4 \<le> length repo \<and> drop (length repo - 4) repo = ''.git''
      then take (length repo - 4) repo else repo)"

definition is_hex :: "char \<Rightarrow> bool" where
  "is_hex c = (c \<in> set ''0123456789abcdefABCDEF'')"

definition hex_address :: "nat \<Rightarrow> string \<Rightarrow> bool" where
  \<comment> \<open>\<^verbatim>\<open>/^0x[0-9a-fA-F]{n}$/.test(a)\<close>\<close>
  "hex_address n a = (take 2 a = ''0x'' \<and> length (drop 2 a) = n \<and> list_all is_hex (drop 2 a))"

subsection \<open>The external service\<close>

datatype request =
    GetByUsername string
  | ReposGet string string
  | GetContent string string string

datatype payload =
    File string
  | Listing "string list"
  | NoContent

text \<open>
  \<open>File c\<close> is a response body with a \<^verbatim>\<open>content\<close> field, held here already decoded from
  base64 to text (the decoding never throws); \<open>Listing names\<close> is an array of directory
  items, of which only \<^verbatim>\<open>name\<close> is read; \<open>NoContent\<close> is any other body. \<open>Rejected\<close> is a
  call that throws.
\<close>

datatype response = Rejected | Response nat payload

text \<open>
  The service answers a request depending on every request made before it: calls are
  sequential, so this covers any sequence of responses.
\<close>

type_synonym octokit = "request list \<Rightarrow> request \<Rightarrow> response"

record state =
  this_errors :: "string list"
  log :: "request list"

definition push :: "string \<Rightarrow> state \<Rightarrow> state" where
  \<comment> \<open>\<^verbatim>\<open>this.errors.push(m)\<close>\<close>
  "push m s = s\<lparr>this_errors := this_errors s @ [m]\<rparr>"

definition call :: "octokit \<Rightarrow> request \<Rightarrow> state \<Rightarrow> response \<times> state" where
  \<comment> \<open>\<^verbatim>\<open>await this.octokit...\<close>: the request is recorded and answered\<close>
  "call K r s = (K (log s) r, s\<lparr>log := log s @ [r]\<rparr>)"

datatype completion = Completed | Thrown string


definition and_then :: "completion \<times> state \<Rightarrow> (state \<Rightarrow> completion \<times> state) \<Rightarrow> completion \<times> state" where
  \<comment> \<open>statement sequencing: an exception skips what follows and keeps the state reached\<close>
  "and_then r f = (case r of (Completed, s) \<Rightarrow> f s | (Thrown e, s) \<Rightarrow> (Thrown e, s))"

fun for_each :: "('a \<Rightarrow> state \<Rightarrow> completion \<times> state) \<Rightarrow> 'a list \<Rightarrow> state \<Rightarrow> completion \<times> state" where
  \<comment> \<open>\<^verbatim>\<open>for (const x of xs) body\<close>, where \<^verbatim>\<open>continue\<close> ends the body\<close>
  "for_each body [] s = (Completed, s)"
| "for_each body (x # xs) s = and_then (body x s) (for_each body xs)"

subsection \<open>The result\<close>

record ValidationResult =
  isValid :: bool
  errors :: "string list"

datatype load_result =
    LoadThrows string
  | Loaded jsvalue

text \<open>
  \<open>LoadThrows e\<close>: \<^verbatim>\<open>readFileSync\<close> or \<^verbatim>\<open>yaml.load\<close> threw an exception that renders as \<open>e\<close>;
  \<open>Loaded data\<close>: they returned \<open>data\<close>.
\<close>

subsection \<open>Required fields\<close>

definition validateRequiredFields :: "jsvalue \<Rightarrow> state \<Rightarrow> completion \<times> state" where
  "validateRequiredFields entry s =
     (case (get_prop entry ''name'', get_prop entry ''github'', get_prop entry ''repos'') of
        (Some name, Some github, Some repos) \<Rightarrow>
          (let s1 = (if \<not> truthy name \<or> (case name of JString n \<Rightarrow> False | _ \<Rightarrow> True)
                     then push ''Missing or invalid 'name' field'' s else s);
               s2 = (if \<not> truthy github \<or> (case github of JArray g \<Rightarrow> g = [] | _ \<Rightarrow> True)
                     then push ''Missing or invalid 'github' field - must be a non-empty array'' s1
                     else s1);
               s3 = (if \<not> truthy repos \<or> (case repos of JArray r \<Rightarrow> r = [] | _ \<Rightarrow> True)
                     then push ''Missing or invalid 'repos' field - must be a non-empty array'' s2
                     else s2)
           in (Completed, s3))
      | _ \<Rightarrow> (Thrown type_error, s))"

definition validateRequiredFields_strict :: "jsvalue \<Rightarrow> state \<Rightarrow> completion \<times> state" where
  "validateRequiredFields_strict entry s =
     (case (validateRequiredFields entry s, get_prop entry ''wallets'') of
        ((Completed, s3), Some wallets) \<Rightarrow>
          (Completed,
           if \<not> truthy wallets \<or> \<not> typeof_object wallets
           then push ''Missing or invalid 'wallets' field'' s3 else s3)
      | ((Completed, s3), None) \<Rightarrow> (Thrown type_error, s3)
      | (r, _) \<Rightarrow> r)"

subsection \<open>GitHub handles and X handles\<close>

definition validateGitHubHandles_body :: "octokit \<Rightarrow> jsvalue \<Rightarrow> state \<Rightarrow> completion \<times> state" where
  "validateGitHubHandles_body K handle s =
     (case handle of
        JString h \<Rightarrow>
          if trim h = [] then (Completed, push (''Invalid GitHub handle: '' @ quoted h) s)
          else (case call K (GetByUsername (trim h)) s of
                  (Rejected, s1) \<Rightarrow>
                    (Completed, push (''GitHub handle '' @ quoted h @ '' is not valid or not found'') s1)
                | (Response st d, s1) \<Rightarrow>
                    (Completed,
                     if st \<noteq> 200
                     then push (''GitHub handle '' @ quoted h @ '' is not accessible (status: '' @
                                string_of_nat st @ '')'') s1
                     else s1))
      | _ \<Rightarrow>
          (case js_String handle of
             None \<Rightarrow> (Thrown type_error, s)
           | Some t \<Rightarrow> (Completed, push (''Invalid GitHub handle: '' @ quoted t) s)))"

definition validateGitHubHandles :: "octokit \<Rightarrow> jsvalue list \<Rightarrow> state \<Rightarrow> completion \<times> state" where
  "validateGitHubHandles K handles s = for_each (validateGitHubHandles_body K) handles s"

definition validateXHandles_body :: "jsvalue \<Rightarrow> state \<Rightarrow> completion \<times> state" where
  "validateXHandles_body handle s =
     (case handle of
        JString h \<Rightarrow>
          (Completed, if trim h = [] then push (''Invalid X handle: '' @ quoted h) s else s)
      | _ \<Rightarrow>
          (case js_String handle of
             None \<Rightarrow> (Thrown type_error, s)
           | Some t \<Rightarrow> (Completed, push (''Invalid X handle: '' @ quoted t) s)))"

definition validateXHandles :: "jsvalue list \<Rightarrow> state \<Rightarrow> completion \<times> state" where
  "validateXHandles handles s = for_each validateXHandles_body handles s"

subsection \<open>Repository URLs\<close>

definition validateRepositoryUrls_body :: "octokit \<Rightarrow> jsvalue \<Rightarrow> state \<Rightarrow> completion \<times> state" where
  "validateRepositoryUrls_body K url s =
     (case url of
        JString u \<Rightarrow>
          if trim u = [] then (Completed, push (''Invalid repository URL: '' @ quoted u) s)
          else (case match_github u of
                  None \<Rightarrow> (Completed, push (''Invalid GitHub URL format: '' @ quoted u) s)
                | Some (owner, repo) \<Rightarrow>
                    (case call K (ReposGet (trim owner) (trim (strip_git repo))) s of
                       (Rejected, s1) \<Rightarrow>
                         (Completed,
                          push (''Repository '' @ quoted u @ '' is not valid or not found'') s1)
                     | (Response st d, s1) \<Rightarrow>
                         (Completed,
                          if st \<noteq> 200
                          then push (''Repository '' @ quoted u @ '' is not accessible (status: '' @
                                     string_of_nat st @ '')'') s1
                          else s1)))
      | _ \<Rightarrow>
          (case js_String url of
             None \<Rightarrow> (Thrown type_error, s)
           | Some t \<Rightarrow> (Completed, push (''Invalid repository URL: '' @ quoted t) s)))"

definition validateRepositoryUrls :: "octokit \<Rightarrow> jsvalue list \<Rightarrow> state \<Rightarrow> completion \<times> state" where
  "validateRepositoryUrls K urls s = for_each (validateRepositoryUrls_body K) urls s"


subsection \<open>The Flow ecosystem requirement\<close>

definition readme_probe :: "octokit \<Rightarrow> string \<Rightarrow> string \<Rightarrow> state \<Rightarrow> bool \<times> state" where
  \<comment> \<open>the first inner \<^verbatim>\<open>try\<close>: \<open>True\<close> when its \<^verbatim>\<open>return\<close> is reached\<close>
  "readme_probe K owner repoName s =
     (case call K (GetContent owner repoName ''README.md'') s of
        (Response st (File content), s1) \<Rightarrow>
          (st = 200 \<and>
           (str_includes (toLowerCase content) ''on flow'' \<or>
            str_includes (toLowerCase content) ''flow blockchain''), s1)
      | (r, s1) \<Rightarrow> (False, s1))"

definition optional_prop :: "jsvalue option \<Rightarrow> string \<Rightarrow> jsvalue" where
  \<comment> \<open>\<^verbatim>\<open>v?.[k]\<close>, for \<open>v\<close> read from a value that is neither null nor undefined\<close>
  "optional_prop v k =
     (case v of
        Some d \<Rightarrow> (case get_prop d k of Some x \<Rightarrow> x | None \<Rightarrow> JUndefined)
      | None \<Rightarrow> JUndefined)"

definition has_flow_dependency :: "jsvalue \<Rightarrow> bool" where
  \<comment> \<open>the condition on \<^verbatim>\<open>packageJson\<close>; reading \<^verbatim>\<open>dependencies\<close> of null throws, which the
      enclosing \<^verbatim>\<open>try\<close> catches\<close>
  "has_flow_dependency packageJson =
     (case get_prop packageJson ''dependencies'' of
        None \<Rightarrow> False
      | Some deps \<Rightarrow>
          truthy deps \<and>
          (truthy (optional_prop (Some deps) ''@onflow/fcl'') \<or>
           truthy (optional_prop (Some deps) ''@onflow/kit'') \<or>
           truthy (optional_prop (get_prop packageJson ''devDependencies'') ''@onflow/fcl'') \<or>
           truthy (optional_prop (get_prop packageJson ''devDependencies'') ''@onflow/kit'')))"

definition package_probe ::
  "octokit \<Rightarrow> (string \<Rightarrow> jsvalue option) \<Rightarrow> string \<Rightarrow> string \<Rightarrow> state \<Rightarrow> bool \<times> state" where
  \<comment> \<open>the second inner \<^verbatim>\<open>try\<close>; \<open>JSON_parse\<close> is the built-in \<^verbatim>\<open>JSON.parse\<close>, \<open>None\<close> where
      it throws\<close>
  "package_probe K JSON_parse owner repoName s =
     (case call K (GetContent owner repoName ''package.json'') s of
        (Response st (File content), s1) \<Rightarrow>
          (st = 200 \<and>
           (case JSON_parse content of None \<Rightarrow> False | Some packageJson \<Rightarrow>
              has_flow_dependency packageJson), s1)
      | (r, s1) \<Rightarrow> (False, s1))"

definition gomod_probe :: "octokit \<Rightarrow> string \<Rightarrow> string \<Rightarrow> state \<Rightarrow> bool \<times> state" where
  "gomod_probe K owner repoName s =
     (case call K (GetContent owner repoName ''go.mod'') s of
        (Response st (File content), s1) \<Rightarrow>
          (st = 200 \<and>
           (str_includes content ''github.com/onflow/flow-go-sdk'' \<or>
            str_includes content ''github.com/onflow/flow-go''), s1)
      | (r, s1) \<Rightarrow> (False, s1))"

definition hasSolidityConfig :: "string list \<Rightarrow> bool" where
  "hasSolidityConfig names =
     list_ex (\<lambda>name. name = ''hardhat.config.js'' \<or> name = ''hardhat.config.ts'' \<or>
                     name = ''truffle-config.js'' \<or> name = ''foundry.toml'') names"

fun config_files_loop :: "octokit \<Rightarrow> string \<Rightarrow> string \<Rightarrow> string list \<Rightarrow> state \<Rightarrow> bool \<times> state" where
  \<comment> \<open>\<^verbatim>\<open>for (const file of filesResponse.data)\<close>: \<open>True\<close> when its \<^verbatim>\<open>return\<close> is reached\<close>
  "config_files_loop K owner repoName [] s = (False, s)"
| "config_files_loop K owner repoName (name # names) s =
     (if name = ''hardhat.config.js'' \<or> name = ''hardhat.config.ts'' then
        (case call K (GetContent owner repoName name) s of
           (Response st (File content), s1) \<Rightarrow>
             if st = 200 \<and> str_includes content ''evm.nodes.onflow.org'' then (True, s1)
             else config_files_loop K owner repoName names s1
         | (r, s1) \<Rightarrow> config_files_loop K owner repoName names s1)
      else config_files_loop K owner repoName names s)"

definition solidity_probe :: "octokit \<Rightarrow> string \<Rightarrow> string \<Rightarrow> state \<Rightarrow> bool \<times> state" where
  "solidity_probe K owner repoName s =
     (case call K (GetContent owner repoName []) s of
        (Response st (Listing names), s1) \<Rightarrow>
          if st = 200 \<and> hasSolidityConfig names then config_files_loop K owner repoName names s1
          else (False, s1)
      | (r, s1) \<Rightarrow> (False, s1))"

definition ecosystem_message :: "string \<Rightarrow> string" where
  "ecosystem_message url =
     ''Repository '' @ quoted url @
     '' does not meet Flow ecosystem requirements. It must either: 1) Clearly state '' @
     [CHR 0x22] @ ''Built on Flow'' @ [CHR 0x22] @
     '' in README.md, or 2) Include Flow components (@onflow/fcl, @onflow/kit, Flow Go SDK, or Flow EVM endpoints)''"

datatype control = Continue | Return

definition validateFlowEcosystemRequirements_body ::
  "octokit \<Rightarrow> (string \<Rightarrow> jsvalue option) \<Rightarrow> jsvalue \<Rightarrow> state \<Rightarrow> control \<times> state" where
  \<comment> \<open>one iteration; \<^verbatim>\<open>url.match\<close> of a value that is not a string throws a TypeError, which
      the outer \<^verbatim>\<open>try\<close> of the iteration catches\<close>
  "validateFlowEcosystemRequirements_body K JSON_parse url s =
     (case url of
        JString u \<Rightarrow>
          (case match_github u of
             None \<Rightarrow> (Continue, s)
           | Some (owner, repo) \<Rightarrow>
               (let repoName = strip_git repo in
                case readme_probe K (trim owner) (trim repoName) s of
                  (True, s1) \<Rightarrow> (Return, s1)
                | (False, s1) \<Rightarrow>
                (case package_probe K JSON_parse (trim owner) (trim repoName) s1 of
                  (True, s2) \<Rightarrow> (Continue, s2)
                | (False, s2) \<Rightarrow>
                (case gomod_probe K (trim owner) (trim repoName) s2 of
                  (True, s3) \<Rightarrow> (Continue, s3)
                | (False, s3) \<Rightarrow>
                (case solidity_probe K (trim owner) (trim repoName) s3 of
                  (True, s4) \<Rightarrow> (Return, s4)
                | (False, s4) \<Rightarrow> (Continue, push (ecosystem_message u) s4))))))
      | _ \<Rightarrow> (Continue, s))"

fun validateFlowEcosystemRequirements ::
  "octokit \<Rightarrow> (string \<Rightarrow> jsvalue option) \<Rightarrow> jsvalue list \<Rightarrow> state \<Rightarrow> state" where
  "validateFlowEcosystemRequirements K JSON_parse [] s = s"
| "validateFlowEcosystemRequirements K JSON_parse (url # urls) s =
     (case validateFlowEcosystemRequirements_body K JSON_parse url s of
        (Return, s1) \<Rightarrow> s1
      | (Continue, s1) \<Rightarrow> validateFlowEcosystemRequirements K JSON_parse urls s1)"

subsection \<open>Wallet addresses\<close>

definition evm_message :: "string \<Rightarrow> string" where
  "evm_message evmAddress =
     ''Invalid EVM wallet address: '' @ quoted evmAddress @
     '' - must start with 0x and be 42 characters long (0x + 40 hex chars)''"

definition flow_message :: "string \<Rightarrow> string" where
  "flow_message flowAddress =
     ''Invalid Flow wallet address: '' @ quoted flowAddress @
     '' - must start with 0x and be 18 characters long (0x + 16 hex chars)''"

definition check_address :: "nat \<Rightarrow> string \<Rightarrow> bool" where
  \<comment> \<open>the three tests of an address, for \<open>n\<close> hexadecimal digits: \<open>True\<close> when it is refused\<close>
  "check_address n a = (take 2 a \<noteq> ''0x'' \<or> length a \<noteq> n + 2 \<or> \<not> hex_address n a)"

definition validateWalletAddresses :: "jsvalue \<Rightarrow> state \<Rightarrow> completion \<times> state" where
  "validateWalletAddresses wallets s =
     (case (get_prop wallets ''evm'', get_prop wallets ''flow'') of
        (Some evm, Some flow) \<Rightarrow>
          (let s1 = (case evm of
                       JString e \<Rightarrow>
                         if e \<noteq> [] \<and> check_address 40 (trim e)
                         then push (evm_message (trim e)) s else s
                     | _ \<Rightarrow> s);
               s2 = (case flow of
                       JString f \<Rightarrow>
                         if f \<noteq> [] \<and> check_address 16 (trim f)
                         then push (flow_message (trim f)) s1 else s1
                     | _ \<Rightarrow> s1)
           in (Completed, s2))
      | _ \<Rightarrow> (Thrown type_error, s))"

definition validateWalletAddresses_strict :: "jsvalue \<Rightarrow> state \<Rightarrow> completion \<times> state" where
  "validateWalletAddresses_strict wallets s =
     (case (get_prop wallets ''evm'', get_prop wallets ''flow'') of
        (Some evm, Some flow) \<Rightarrow>
          (let s1 = (case evm of
                       JString e \<Rightarrow>
                         if e = [] then push ''Missing or invalid 'evm' wallet address'' s
                         else if check_address 40 (trim e)
                         then push (evm_message (trim e)) s else s
                     | _ \<Rightarrow> push ''Missing or invalid 'evm' wallet address'' s);
               s2 = (case flow of
                       JString f \<Rightarrow>
                         if f = [] then push ''Missing or invalid 'flow' wallet address'' s1
                         else if check_address 16 (trim f)
                         then push (flow_message (trim f)) s1 else s1
                     | _ \<Rightarrow> push ''Missing or invalid 'flow' wallet address'' s1)
           in (Completed, s2))
      | _ \<Rightarrow> (Thrown type_error, s))"


subsection \<open>The entry point\<close>

definition new_RegistryValidator :: state where
  \<comment> \<open>the constructor: \<^verbatim>\<open>errors = []\<close>; the history of the service starts with the run\<close>
  "new_RegistryValidator = \<lparr>this_errors = [], log = []\<rparr>"

definition if_array ::
  "jsvalue option \<Rightarrow> (jsvalue list \<Rightarrow> state \<Rightarrow> completion \<times> state) \<Rightarrow> state \<Rightarrow> completion \<times> state" where
  \<comment> \<open>\<^verbatim>\<open>if (entry.k && Array.isArray(entry.k)) { f(entry.k) }\<close>\<close>
  "if_array v f s =
     (case v of
        None \<Rightarrow> (Thrown type_error, s)
      | Some (JArray xs) \<Rightarrow> f xs s
      | Some other \<Rightarrow> (Completed, s))"

definition if_truthy ::
  "jsvalue option \<Rightarrow> (jsvalue \<Rightarrow> state \<Rightarrow> completion \<times> state) \<Rightarrow> state \<Rightarrow> completion \<times> state" where
  \<comment> \<open>\<^verbatim>\<open>if (entry.k) { f(entry.k) }\<close>\<close>
  "if_truthy v f s =
     (case v of
        None \<Rightarrow> (Thrown type_error, s)
      | Some x \<Rightarrow> if truthy x then f x s else (Completed, s))"

definition parse_failure :: "string \<Rightarrow> state \<Rightarrow> ValidationResult \<times> state" where
  \<comment> \<open>the \<^verbatim>\<open>catch\<close> block of \<^verbatim>\<open>validateRegistry\<close>\<close>
  "parse_failure e s =
     (let s1 = push (''Failed to parse registry file: '' @ e) s
      in (\<lparr>isValid = False, errors = this_errors s1\<rparr>, s1))"

definition entries_of :: "jsvalue list \<Rightarrow> jsvalue list" where
  \<comment> \<open>\<^verbatim>\<open>data.filter((entry) => entry && typeof entry === "object")\<close>\<close>
  "entries_of items = filter (\<lambda>entry. truthy entry \<and> typeof_object entry) items"

definition finish :: "completion \<times> state \<Rightarrow> ValidationResult \<times> state" where
  \<comment> \<open>the final \<^verbatim>\<open>return\<close> of the \<^verbatim>\<open>try\<close> block, or the \<^verbatim>\<open>catch\<close> block\<close>
  "finish r =
     (case r of
        (Completed, s1) \<Rightarrow> (\<lparr>isValid = (length (this_errors s1) = 0), errors = this_errors s1\<rparr>, s1)
      | (Thrown e, s1) \<Rightarrow> parse_failure e s1)"

definition validateRegistry ::
  "octokit \<Rightarrow> (string \<Rightarrow> jsvalue option) \<Rightarrow> load_result \<Rightarrow> state \<Rightarrow> ValidationResult \<times> state" where
  \<comment> \<open>a value that is not an array has no callable \<^verbatim>\<open>filter\<close>: TypeError\<close>
  "validateRegistry K JSON_parse input s =
     (case input of
        LoadThrows e \<Rightarrow> parse_failure e s
      | Loaded (JArray items) \<Rightarrow>
          (let entries = entries_of items in
           if length entries = 0 then
             (let s1 = push ''No valid registry entries found'' s
              in (\<lparr>isValid = False, errors = this_errors s1\<rparr>, s1))
           else
             (let entry = last entries in
              finish
               (and_then (and_then (and_then (and_then
                  (validateRequiredFields entry s)
                  (if_array (get_prop entry ''github'') (validateGitHubHandles K)))
                  (if_array (get_prop entry ''repos'')
                     (\<lambda>urls s. and_then (validateRepositoryUrls K urls s)
                        (\<lambda>s. (Completed, validateFlowEcosystemRequirements K JSON_parse urls s)))))
                  (if_truthy (get_prop entry ''wallets'') validateWalletAddresses))
                  (if_array (get_prop entry ''x'') validateXHandles))))
      | Loaded other \<Rightarrow> parse_failure type_error s)"

definition validateRegistry_strict ::
  "octokit \<Rightarrow> load_result \<Rightarrow> state \<Rightarrow> ValidationResult \<times> state" where
  "validateRegistry_strict K input s =
     (case input of
        LoadThrows e \<Rightarrow> parse_failure e s
      | Loaded (JArray items) \<Rightarrow>
          (let entries = entries_of items in
           if length entries = 0 then
             (let s1 = push ''No valid registry entries found'' s
              in (\<lparr>isValid = False, errors = this_errors s1\<rparr>, s1))
           else
             (let entry = last entries in
              finish
               (and_then (and_then (and_then
                  (validateRequiredFields_strict entry s)
                  (if_array (get_prop entry ''github'') (validateGitHubHandles K)))
                  (if_array (get_prop entry ''repos'') (validateRepositoryUrls K)))
                  (if_truthy (get_prop entry ''wallets'') validateWalletAddresses_strict))))
      | Loaded other \<Rightarrow> parse_failure type_error s)"


subsection \<open>Notions of the specification\<close>

definition entry_under_test :: "jsvalue list \<Rightarrow> jsvalue option" where
  \<comment> \<open>the last object-typed record of the parsed sequence, if there is one\<close>
  "entry_under_test items =
     (if entries_of items = [] then None else Some (last (entries_of items)))"

definition unusable :: "load_result \<Rightarrow> bool" where
  \<comment> \<open>loading threw, or the loaded sequence has no object-typed record, or the loaded
      document is no sequence at all\<close>
  "unusable input =
     (case input of
        LoadThrows e \<Rightarrow> True
      | Loaded (JArray items) \<Rightarrow> entries_of items = []
      | Loaded other \<Rightarrow> True)"

definition renders :: "jsvalue \<Rightarrow> bool" where
  \<comment> \<open>the value can be rendered in a template without an exception; every string can\<close>
  "renders v = (js_String v \<noteq> None)"

definition exact_github_shape :: "string \<Rightarrow> bool" where
  \<comment> \<open>the whole string is \<^verbatim>\<open>https://github.com/<owner>/<repo>\<close>, owner and repo non-empty
      and free of slashes; a trailing \<^verbatim>\<open>.git\<close> is part of such a repo\<close>
  "exact_github_shape u =
     (take (length github_prefix) u = github_prefix \<and>
      (let rest = drop (length github_prefix) u;
           owner = takeWhile not_slash rest;
           after = dropWhile not_slash rest
       in owner \<noteq> [] \<and> after \<noteq> [] \<and> tl after \<noteq> [] \<and> list_all not_slash (tl after)))"

definition is_evm_error :: "string \<Rightarrow> bool" where
  \<comment> \<open>an error of the EVM address template\<close>
  "is_evm_error m = (take 28 m = ''Invalid EVM wallet address: '')"

definition appended :: "state \<Rightarrow> state \<Rightarrow> string list" where
  \<comment> \<open>the errors that \<open>s'\<close> holds beyond those of \<open>s\<close>\<close>
  "appended s s' = drop (length (this_errors s)) (this_errors s')"

definition grows :: "state \<Rightarrow> state \<Rightarrow> bool" where
  \<comment> \<open>nothing recorded is lost: the errors and the log of \<open>s\<close> open those of \<open>s'\<close>\<close>
  "grows s s' = (prefix (this_errors s) (this_errors s') \<and> prefix (log s) (log s'))"

fun agree_from :: "octokit \<Rightarrow> octokit \<Rightarrow> request list \<Rightarrow> request list \<Rightarrow> bool" where
  \<comment> \<open>after the history \<open>h\<close>, both services answer each request of the sequence alike\<close>
  "agree_from K1 K2 h [] = True"
| "agree_from K1 K2 h (r # rs) = (K1 h r = K2 h r \<and> agree_from K1 K2 (h @ [r]) rs)"

definition same_responses :: "octokit \<Rightarrow> octokit \<Rightarrow> request list \<Rightarrow> bool" where
  \<comment> \<open>the two services give identical responses along the whole log of a run\<close>
  "same_responses K1 K2 l = agree_from K1 K2 [] l"

subsection \<open>Sample inputs\<close>

definition acme_octokit :: octokit where
  \<comment> \<open>user alice and the repositories of acme exist; widget states that it is built on
      Flow in its README, sol keeps the Flow EVM endpoint in foundry.toml\<close>
  "acme_octokit h r =
     (case r of
        GetByUsername u \<Rightarrow> if u = ''alice'' then Response 200 NoContent else Rejected
      | ReposGet owner repo \<Rightarrow> if owner = ''acme'' then Response 200 NoContent else Rejected
      | GetContent owner repo path \<Rightarrow>
          if repo = ''widget'' \<and> path = ''README.md''
            then Response 200 (File ''# Widget. Built on Flow'')
          else if repo = ''sol'' \<and> path = []
            then Response 200 (Listing [''foundry.toml'', ''src''])
          else if repo = ''sol'' \<and> path = ''foundry.toml''
            then Response 200 (File ''rpc = https://mainnet.evm.nodes.onflow.org'')
          else Rejected)"

definition flaky_octokit :: octokit where
  \<comment> \<open>answers as \<open>acme_octokit\<close> does, except that user bob exists and that everything is
      refused once five requests have been made\<close>
  "flaky_octokit h r =
     (if 5 \<le> length h then Rejected
      else if r = GetByUsername ''bob'' then Response 200 NoContent
      else acme_octokit h r)"

definition no_JSON :: "string \<Rightarrow> jsvalue option" where
  \<comment> \<open>a \<^verbatim>\<open>JSON.parse\<close> that refuses every text\<close>
  "no_JSON text = None"

definition widget_url :: string where
  "widget_url = ''https://github.com/acme/widget''"

definition other_url :: string where
  "other_url = ''https://github.com/acme/other''"

definition sol_url :: string where
  "sol_url = ''https://github.com/acme/sol''"

definition team_entry :: jsvalue where
  "team_entry =
     JObject [(''name'', JString ''Team''),
              (''github'', JArray [JString ''alice'']),
              (''repos'', JArray [JString widget_url]),
              (''wallets'', JObject [(''evm'', JString ''0x123'')])]"

section \<open>Nothing recorded is lost\<close>

text \<open>
  Every operation of the validator only appends: to the errors of the instance and to the
  log of requests.
\<close>

lemma grows_refl [simp]: "grows s s"
  by (simp add: grows_def)

lemma grows_trans: "grows s s1 \<Longrightarrow> grows s1 s2 \<Longrightarrow> grows s s2"
  by (auto simp: grows_def)

lemma grows_push [simp]: "grows s (push m s)"
  by (simp add: grows_def push_def)

lemma grows_push_trans: "grows s s1 \<Longrightarrow> grows s (push m s1)"
  by (rule grows_trans [OF _ grows_push])

lemma grows_call: "grows s (snd (call K r s))"
  by (simp add: grows_def call_def)

lemma grows_and_then:
  assumes "grows s (snd r)" and "\<And>s1. grows s1 (snd (f s1))"
  shows "grows s (snd (and_then r f))"
proof (cases r)
  case (Pair c s1)
  with assms show ?thesis
    by (cases c) (auto simp: and_then_def intro: grows_trans)
qed

lemma grows_for_each:
  assumes "\<And>x s. grows s (snd (body x s))"
  shows "grows s (snd (for_each body xs s))"
proof (induction xs arbitrary: s)
  case Nil
  show ?case by simp
next
  case (Cons x xs)
  show ?case
    unfolding for_each.simps
    by (rule grows_and_then) (rule assms, rule Cons.IH)
qed

lemma grows_validateRequiredFields: "grows s (snd (validateRequiredFields entry s))"
  by (auto simp: validateRequiredFields_def Let_def split: option.splits intro!: grows_push_trans)

lemma grows_validateRequiredFields_strict: "grows s (snd (validateRequiredFields_strict entry s))"
  using grows_validateRequiredFields [of s entry]
  by (auto simp: validateRequiredFields_strict_def split: option.splits prod.splits completion.splits
      intro!: grows_push_trans)


lemma grows_validateGitHubHandles_body: "grows s (snd (validateGitHubHandles_body K handle s))"
  by (auto simp: validateGitHubHandles_body_def call_def grows_def push_def
      split: jsvalue.splits option.splits response.splits)

lemma grows_validateGitHubHandles: "grows s (snd (validateGitHubHandles K handles s))"
  unfolding validateGitHubHandles_def
  by (rule grows_for_each) (rule grows_validateGitHubHandles_body)

lemma grows_validateXHandles_body: "grows s (snd (validateXHandles_body handle s))"
  by (auto simp: validateXHandles_body_def grows_def push_def split: jsvalue.splits option.splits)

lemma grows_validateXHandles: "grows s (snd (validateXHandles handles s))"
  unfolding validateXHandles_def
  by (rule grows_for_each) (rule grows_validateXHandles_body)

lemma grows_validateRepositoryUrls_body: "grows s (snd (validateRepositoryUrls_body K url s))"
  by (auto simp: validateRepositoryUrls_body_def call_def grows_def push_def
      split: jsvalue.splits option.splits response.splits)

lemma grows_validateRepositoryUrls: "grows s (snd (validateRepositoryUrls K urls s))"
  unfolding validateRepositoryUrls_def
  by (rule grows_for_each) (rule grows_validateRepositoryUrls_body)

lemma readme_probe_state:
  "snd (readme_probe K owner repo s) = s\<lparr>log := log s @ [GetContent owner repo ''README.md'']\<rparr>"
  by (simp add: readme_probe_def call_def split: response.splits payload.splits)

lemma package_probe_state:
  "snd (package_probe K J owner repo s) = s\<lparr>log := log s @ [GetContent owner repo ''package.json'']\<rparr>"
  by (simp add: package_probe_def call_def split: response.splits payload.splits)

lemma gomod_probe_state:
  "snd (gomod_probe K owner repo s) = s\<lparr>log := log s @ [GetContent owner repo ''go.mod'']\<rparr>"
  by (simp add: gomod_probe_def call_def split: response.splits payload.splits)

lemma config_files_loop_state:
  "this_errors (snd (config_files_loop K owner repo names s)) = this_errors s \<and>
   prefix (log s) (log (snd (config_files_loop K owner repo names s)))"
proof (induction names arbitrary: s)
  case Nil
  show ?case by simp
next
  case (Cons name names)
  have step: "prefix (log s) (log (snd (config_files_loop K owner repo names
                 (s\<lparr>log := log s @ [GetContent owner repo name]\<rparr>))))"
    using Cons.IH [of "s\<lparr>log := log s @ [GetContent owner repo name]\<rparr>"]
    by (auto dest: append_prefixD)
  show ?case
    using Cons.IH [of s] Cons.IH [of "s\<lparr>log := log s @ [GetContent owner repo name]\<rparr>"] step
    by (auto simp: call_def split: response.splits payload.splits)
qed

lemma solidity_probe_state:
  "this_errors (snd (solidity_probe K owner repo s)) = this_errors s \<and>
   prefix (log s @ [GetContent owner repo []]) (log (snd (solidity_probe K owner repo s)))"
  using config_files_loop_state [of K owner repo _ "s\<lparr>log := log s @ [GetContent owner repo []]\<rparr>"]
  by (auto simp: solidity_probe_def call_def split: response.splits payload.splits)

lemma grows_solidity_probe: "grows s (snd (solidity_probe K owner repo s))"
  using solidity_probe_state [of K owner repo s]
  by (auto simp: grows_def dest: append_prefixD)

lemma grows_validateFlowEcosystemRequirements_body:
  "grows s (snd (validateFlowEcosystemRequirements_body K J url s))"
proof (cases url)
  case (JString u)
  show ?thesis
  proof (cases "match_github u")
    case None
    with JString show ?thesis by (simp add: validateFlowEcosystemRequirements_body_def)
  next
    case (Some m)
    obtain owner repo where m: "m = (owner, repo)" by (cases m)
    define ow where "ow = trim owner"
    define rn where "rn = trim (strip_git repo)"
    define s1 where "s1 = snd (readme_probe K ow rn s)"
    define s2 where "s2 = snd (package_probe K J ow rn s1)"
    define s3 where "s3 = snd (gomod_probe K ow rn s2)"
    define s4 where "s4 = snd (solidity_probe K ow rn s3)"
    have g1: "grows s s1" by (simp add: s1_def readme_probe_state grows_def)
    have g2: "grows s1 s2" by (simp add: s2_def package_probe_state grows_def)
    have g3: "grows s2 s3" by (simp add: s3_def gomod_probe_state grows_def)
    have g4: "grows s3 s4" by (simp add: s4_def grows_solidity_probe)
    have g12: "grows s s2" by (rule grows_trans [OF g1 g2])
    have g13: "grows s s3" by (rule grows_trans [OF g12 g3])
    have g14: "grows s s4" by (rule grows_trans [OF g13 g4])
    have "snd (validateFlowEcosystemRequirements_body K J url s) \<in>
            {s1, s2, s3, s4, push (ecosystem_message u) s4}"
      using JString Some m
      by (auto simp: validateFlowEcosystemRequirements_body_def Let_def s1_def s2_def s3_def s4_def
          ow_def rn_def split: prod.splits bool.splits)
    then show ?thesis
      using g1 g12 g13 g14 by (auto intro: grows_push_trans)
  qed
qed (simp_all add: validateFlowEcosystemRequirements_body_def)

lemma grows_validateFlowEcosystemRequirements:
  "grows s (validateFlowEcosystemRequirements K J urls s)"
proof (induction urls arbitrary: s)
  case Nil
  show ?case by simp
next
  case (Cons url urls)
  obtain c s1 where b: "validateFlowEcosystemRequirements_body K J url s = (c, s1)"
    by (cases "validateFlowEcosystemRequirements_body K J url s")
  have g: "grows s s1"
    using grows_validateFlowEcosystemRequirements_body [of s K J url] b by simp
  show ?case
    using b g Cons.IH [of s1] by (cases c) (auto intro: grows_trans)
qed

lemma grows_validateWalletAddresses: "grows s (snd (validateWalletAddresses wallets s))"
  by (auto simp: validateWalletAddresses_def Let_def grows_def push_def
      split: option.splits jsvalue.splits)

lemma grows_validateWalletAddresses_strict: "grows s (snd (validateWalletAddresses_strict wallets s))"
  by (auto simp: validateWalletAddresses_strict_def Let_def grows_def push_def
      split: option.splits jsvalue.splits)

lemma grows_if_array:
  assumes "\<And>xs s. grows s (snd (f xs s))"
  shows "grows s (snd (if_array v f s))"
  using assms by (auto simp: if_array_def split: option.splits jsvalue.splits)

lemma grows_if_truthy:
  assumes "\<And>x s. grows s (snd (f x s))"
  shows "grows s (snd (if_truthy v f s))"
  using assms by (auto simp: if_truthy_def split: option.splits)

lemma grows_repos_checks:
  "grows s (snd (and_then (validateRepositoryUrls K urls s)
      (\<lambda>s. (Completed, validateFlowEcosystemRequirements K J urls s))))"
  by (rule grows_and_then) (simp_all add: grows_validateRepositoryUrls grows_validateFlowEcosystemRequirements)

lemma grows_parse_failure: "grows s (snd (parse_failure e s))"
  by (simp add: parse_failure_def Let_def)

lemma grows_finish: "grows s (snd r) \<Longrightarrow> grows s (snd (finish r))"
  by (cases r, cases "fst r") (auto simp: finish_def parse_failure_def Let_def intro: grows_push_trans)

lemma grows_validateRegistry: "grows s (snd (validateRegistry K J input s))"
proof -
  have checks: "grows s (snd (finish
     (and_then (and_then (and_then (and_then
        (validateRequiredFields entry s)
        (if_array (get_prop entry ''github'') (validateGitHubHandles K)))
        (if_array (get_prop entry ''repos'')
           (\<lambda>urls s. and_then (validateRepositoryUrls K urls s)
              (\<lambda>s. (Completed, validateFlowEcosystemRequirements K J urls s)))))
        (if_truthy (get_prop entry ''wallets'') validateWalletAddresses))
        (if_array (get_prop entry ''x'') validateXHandles))))" for entry
    by (intro grows_finish grows_and_then grows_if_array grows_if_truthy
        grows_validateRequiredFields grows_validateGitHubHandles grows_repos_checks
        grows_validateWalletAddresses grows_validateXHandles)
  show ?thesis
    using checks
    by (auto simp: validateRegistry_def Let_def grows_parse_failure
        split: load_result.splits jsvalue.splits)
qed

lemma grows_validateRegistry_strict: "grows s (snd (validateRegistry_strict K input s))"
proof -
  have checks: "grows s (snd (finish
     (and_then (and_then (and_then
        (validateRequiredFields_strict entry s)
        (if_array (get_prop entry ''github'') (validateGitHubHandles K)))
        (if_array (get_prop entry ''repos'') (validateRepositoryUrls K)))
        (if_truthy (get_prop entry ''wallets'') validateWalletAddresses_strict))))" for entry
    by (intro grows_finish grows_and_then grows_if_array grows_if_truthy
        grows_validateRequiredFields_strict grows_validateGitHubHandles grows_validateRepositoryUrls
        grows_validateWalletAddresses_strict)
  show ?thesis
    using checks
    by (auto simp: validateRegistry_strict_def Let_def grows_parse_failure
        split: load_result.splits jsvalue.splits)
qed


section \<open>Results and states\<close>

lemma finish_valid: "isValid (fst (finish r)) = (errors (fst (finish r)) = [])"
  by (cases r, cases "fst r") (auto simp: finish_def parse_failure_def push_def Let_def)

lemma finish_errors: "errors (fst (finish r)) = this_errors (snd (finish r))"
  by (cases r, cases "fst r") (auto simp: finish_def parse_failure_def push_def Let_def)

lemma parse_failure_result:
  "parse_failure e s =
     (\<lparr>isValid = False, errors = this_errors s @ [''Failed to parse registry file: '' @ e]\<rparr>,
      s\<lparr>this_errors := this_errors s @ [''Failed to parse registry file: '' @ e]\<rparr>)"
  by (simp add: parse_failure_def push_def Let_def)

lemma validateRegistry_errors:
  "errors (fst (validateRegistry K J input s)) = this_errors (snd (validateRegistry K J input s))"
  by (simp add: validateRegistry_def Let_def finish_errors parse_failure_result push_def
      split: load_result.splits jsvalue.splits)

lemma validateRegistry_strict_errors:
  "errors (fst (validateRegistry_strict K input s)) =
   this_errors (snd (validateRegistry_strict K input s))"
  by (simp add: validateRegistry_strict_def Let_def finish_errors parse_failure_result push_def
      split: load_result.splits jsvalue.splits)

section \<open>The result of a run\<close>

text \<open>
  Claim C5. Whatever the input, the state of the instance and the responses of the service,
  the validity flag of the returned result is true exactly when its error sequence is
  empty; this covers the parse failure and the run without entries, in both variants.
\<close>
theorem validity_iff_no_errors:
  "isValid (fst (validateRegistry K J input s)) =
     (errors (fst (validateRegistry K J input s)) = []) \<and>
   isValid (fst (validateRegistry_strict K input s)) =
     (errors (fst (validateRegistry_strict K input s)) = [])"
  by (simp add: validateRegistry_def validateRegistry_strict_def Let_def finish_valid
      parse_failure_result push_def split: load_result.splits jsvalue.splits)

theorem validity_iff_no_errors_witness:
  "\<not> isValid (fst (validateRegistry acme_octokit no_JSON (Loaded (JArray [JNull])) new_RegistryValidator)) \<and>
   errors (fst (validateRegistry acme_octokit no_JSON (Loaded (JArray [JNull])) new_RegistryValidator))
     = [''No valid registry entries found'']"
  using validity_iff_no_errors [of acme_octokit no_JSON "Loaded (JArray [JNull])" new_RegistryValidator]
  by (simp add: validateRegistry_def entries_of_def new_RegistryValidator_def push_def)

text \<open>
  Claim C8. When loading the file throws, or the loaded sequence holds no object-typed
  record (or the document is no sequence), a run on a new instance returns a result:
  validity false and exactly one error, with no request made to the service.
\<close>
theorem no_entry_single_error:
  assumes "unusable input"
  shows "\<exists>m. validateRegistry K J input new_RegistryValidator =
           (\<lparr>isValid = False, errors = [m]\<rparr>, \<lparr>this_errors = [m], log = []\<rparr>)"
  using assms
  by (auto simp: unusable_def validateRegistry_def parse_failure_result push_def
      new_RegistryValidator_def split: load_result.splits jsvalue.splits)

theorem no_entry_single_error_witness:
  "unusable (Loaded (JArray [JNull, JString ''team'', JNumber 3])) \<and>
   unusable (LoadThrows ''YAMLException: bad indentation'') \<and>
   validateRegistry acme_octokit no_JSON (Loaded (JArray [JNull, JString ''team'', JNumber 3]))
     new_RegistryValidator =
     (\<lparr>isValid = False, errors = [''No valid registry entries found'']\<rparr>,
      \<lparr>this_errors = [''No valid registry entries found''], log = []\<rparr>) \<and>
   validateRegistry acme_octokit no_JSON (LoadThrows ''YAMLException: bad indentation'')
     new_RegistryValidator =
     (\<lparr>isValid = False,
       errors = [''Failed to parse registry file: YAMLException: bad indentation'']\<rparr>,
      \<lparr>this_errors = [''Failed to parse registry file: YAMLException: bad indentation''],
       log = []\<rparr>)"
proof -
  have a: "unusable (Loaded (JArray [JNull, JString ''team'', JNumber 3]))"
    and b: "unusable (LoadThrows ''YAMLException: bad indentation'')"
    by (simp_all add: unusable_def entries_of_def)
  show ?thesis
    using a b no_entry_single_error [OF a, of acme_octokit no_JSON]
      no_entry_single_error [OF b, of acme_octokit no_JSON]
    by (simp add: validateRegistry_def entries_of_def parse_failure_def push_def
        new_RegistryValidator_def)
qed

text \<open>
  Claim C6. Two parsed sequences with the same last object-typed record give the same
  result and the same final state, whatever the earlier records hold; in both variants.
\<close>
theorem result_depends_on_last_entry:
  assumes "entry_under_test items1 = entry_under_test items2"
  shows "validateRegistry K J (Loaded (JArray items1)) s =
         validateRegistry K J (Loaded (JArray items2)) s \<and>
         validateRegistry_strict K (Loaded (JArray items1)) s =
         validateRegistry_strict K (Loaded (JArray items2)) s"
  using assms
  by (auto simp: entry_under_test_def validateRegistry_def validateRegistry_strict_def Let_def
      split: if_splits)

theorem result_depends_on_last_entry_witness:
  "entry_under_test [JString ''junk'', JObject [(''name'', JNumber 1)], team_entry, JNull] =
   entry_under_test [team_entry] \<and>
   validateRegistry acme_octokit no_JSON
     (Loaded (JArray [JString ''junk'', JObject [(''name'', JNumber 1)], team_entry, JNull]))
     new_RegistryValidator =
   validateRegistry acme_octokit no_JSON (Loaded (JArray [team_entry])) new_RegistryValidator"
proof -
  have h: "entry_under_test [JString ''junk'', JObject [(''name'', JNumber 1)], team_entry, JNull] =
           entry_under_test [team_entry]"
    by (simp add: entry_under_test_def entries_of_def team_entry_def)
  show ?thesis
    using h result_depends_on_last_entry [OF h, of acme_octokit no_JSON new_RegistryValidator]
    by simp
qed

text \<open>
  Claim C10. The errors of an instance are never reset: a call keeps the errors the
  instance held before, returns all of them in its result, and a second call on the same
  instance returns the errors of the first call followed by its own.
\<close>
theorem errors_only_grow:
  "prefix (this_errors s) (this_errors (snd (validateRegistry K J input s))) \<and>
   errors (fst (validateRegistry K J input s)) = this_errors (snd (validateRegistry K J input s)) \<and>
   prefix (errors (fst (validateRegistry K J input s)))
     (errors (fst (validateRegistry K' J' input' (snd (validateRegistry K J input s)))))"
  using grows_validateRegistry [of s K J input]
    grows_validateRegistry [of "snd (validateRegistry K J input s)" K' J' input']
  by (simp add: grows_def validateRegistry_errors)

theorem errors_only_grow_witness:
  "errors (fst (validateRegistry acme_octokit no_JSON (Loaded (JArray []))
      (snd (validateRegistry acme_octokit no_JSON (Loaded (JArray [])) new_RegistryValidator)))) =
   [''No valid registry entries found'', ''No valid registry entries found''] \<and>
   prefix (errors (fst (validateRegistry acme_octokit no_JSON (Loaded (JArray [])) new_RegistryValidator)))
     (errors (fst (validateRegistry acme_octokit no_JSON (Loaded (JArray []))
      (snd (validateRegistry acme_octokit no_JSON (Loaded (JArray [])) new_RegistryValidator)))))"
  using errors_only_grow [of new_RegistryValidator acme_octokit no_JSON "Loaded (JArray [])"
      acme_octokit no_JSON "Loaded (JArray [])"]
  by (simp add: validateRegistry_def entries_of_def new_RegistryValidator_def push_def)


section \<open>The checks of repository URLs\<close>

lemmas string_evals =
  github_prefix_def match_here_def not_slash_def strip_git_def trim_def is_ws_def quoted_def
  toLowerCase_def upper_chars_def lower_chars_def

lemmas probe_evals =
  validateFlowEcosystemRequirements_body_def readme_probe_def package_probe_def gomod_probe_def
  solidity_probe_def hasSolidityConfig_def call_def push_def new_RegistryValidator_def Let_def

text \<open>
  Claim C1, which the code breaks. The README branch leaves the iteration with
  \<^verbatim>\<open>return\<close>, where the package.json and go.mod branches use \<^verbatim>\<open>continue\<close>: the whole
  check ends there. The repository \<^verbatim>\<open>acme/other\<close> fails every probe and gets its error when
  checked alone; listed after \<^verbatim>\<open>acme/widget\<close>, whose README succeeds, it is never probed
  and gets no error.
\<close>
theorem readme_success_skips_later_urls:
  "validateFlowEcosystemRequirements acme_octokit no_JSON [JString other_url]
     new_RegistryValidator =
     \<lparr>this_errors = [ecosystem_message other_url],
      log = [GetContent ''acme'' ''other'' ''README.md'', GetContent ''acme'' ''other'' ''package.json'',
             GetContent ''acme'' ''other'' ''go.mod'', GetContent ''acme'' ''other'' []]\<rparr> \<and>
   validateFlowEcosystemRequirements acme_octokit no_JSON [JString widget_url, JString other_url]
     new_RegistryValidator =
     \<lparr>this_errors = [], log = [GetContent ''acme'' ''widget'' ''README.md'']\<rparr>"
  by (simp add: string_evals probe_evals acme_octokit_def widget_url_def other_url_def)

text \<open>
  Claim C2, which the code breaks. The listing of \<^verbatim>\<open>acme/sol\<close> holds the recognized name
  \<^verbatim>\<open>foundry.toml\<close>, and that file holds the Flow EVM endpoint, but the loop over the listing
  fetches only the two hardhat names: the file is never requested and the repository gets
  the error.
\<close>
theorem foundry_config_never_fetched:
  "acme_octokit [] (GetContent ''acme'' ''sol'' []) = Response 200 (Listing [''foundry.toml'', ''src'']) \<and>
   hasSolidityConfig [''foundry.toml'', ''src''] \<and>
   acme_octokit [] (GetContent ''acme'' ''sol'' ''foundry.toml'') =
     Response 200 (File ''rpc = https://mainnet.evm.nodes.onflow.org'') \<and>
   str_includes ''rpc = https://mainnet.evm.nodes.onflow.org'' ''evm.nodes.onflow.org'' \<and>
   validateFlowEcosystemRequirements acme_octokit no_JSON [JString sol_url] new_RegistryValidator =
     \<lparr>this_errors = [ecosystem_message sol_url],
      log = [GetContent ''acme'' ''sol'' ''README.md'', GetContent ''acme'' ''sol'' ''package.json'',
             GetContent ''acme'' ''sol'' ''go.mod'', GetContent ''acme'' ''sol'' []]\<rparr>"
  by (simp add: string_evals probe_evals acme_octokit_def sol_url_def)

section \<open>The URL pattern\<close>

lemma match_here_Nil [simp]: "match_here [] = None"
  by (simp add: match_here_def github_prefix_def)

lemma match_here_SomeD:
  assumes "match_here s = Some (owner, repo)"
  shows "\<exists>post. s = github_prefix @ owner @ ''/'' @ repo @ post \<and> owner \<noteq> [] \<and> repo \<noteq> [] \<and>
           list_all not_slash owner \<and> list_all not_slash repo"
proof -
  define rest where "rest = drop (length github_prefix) s"
  define after where "after = dropWhile not_slash rest"
  from assms have pre: "take (length github_prefix) s = github_prefix"
    and owner: "owner = takeWhile not_slash rest" and "owner \<noteq> []" and after: "after \<noteq> []"
    and repo: "repo = takeWhile not_slash (tl after)" and "repo \<noteq> []"
    by (auto simp: match_here_def Let_def rest_def after_def split: if_splits)
  have s: "s = github_prefix @ rest"
    using pre append_take_drop_id [of "length github_prefix" s] by (simp add: rest_def)
  have rest: "rest = owner @ after"
    by (simp add: owner after_def)
  have "\<not> not_slash (hd after)"
    using after unfolding after_def by (rule hd_dropWhile)
  then have "hd after = CHR ''/''" by (simp add: not_slash_def)
  with after have a: "after = CHR ''/'' # tl after" by (cases after) auto
  have t: "tl after = repo @ dropWhile not_slash (tl after)"
    by (simp add: repo)
  have "s = github_prefix @ owner @ ''/'' @ repo @ dropWhile not_slash (tl after)"
    using s rest a t by simp
  moreover have "list_all not_slash owner" "list_all not_slash repo"
    by (auto simp: owner repo list_all_iff dest: set_takeWhileD)
  ultimately show ?thesis
    using \<open>owner \<noteq> []\<close> \<open>repo \<noteq> []\<close> by blast
qed

lemma match_here_SomeI:
  assumes "owner \<noteq> []" "repo \<noteq> []" "list_all not_slash owner" "list_all not_slash repo"
  shows "match_here (github_prefix @ owner @ ''/'' @ repo @ post) =
           Some (owner, repo @ takeWhile not_slash post)"
proof -
  have no: "\<not> not_slash (CHR ''/'')" by (simp add: not_slash_def)
  have o: "\<forall>c\<in>set owner. not_slash c" and r: "\<forall>c\<in>set repo. not_slash c"
    using assms by (simp_all add: list_all_iff)
  have tw: "takeWhile not_slash (owner @ CHR ''/'' # repo @ post) = owner"
    using o no by (simp add: takeWhile_tail)
  have dw: "dropWhile not_slash (owner @ CHR ''/'' # repo @ post) = CHR ''/'' # repo @ post"
    using o no by (simp add: dropWhile_append3)
  have tr: "takeWhile not_slash (repo @ post) = repo @ takeWhile not_slash post"
    using r by (simp add: takeWhile_append2)
  show ?thesis
    using assms(1,2) no by (simp add: match_here_def Let_def tw dw tr)
qed

lemma match_github_SomeD:
  "match_github u = Some m \<Longrightarrow> \<exists>pre s. u = pre @ s \<and> match_here s = Some m"
proof (induction u)
  case Nil
  then show ?case by simp
next
  case (Cons c cs)
  show ?case
  proof (cases "match_here (c # cs)")
    case (Some m')
    with Cons.prems have "match_here (c # cs) = Some m" by simp
    then have "c # cs = [] @ (c # cs) \<and> match_here (c # cs) = Some m" by simp
    then show ?thesis by blast
  next
    case None
    with Cons.prems have "match_github cs = Some m" by simp
    then obtain pre s where "cs = pre @ s" "match_here s = Some m"
      using Cons.IH by blast
    then have "c # cs = (c # pre) @ s \<and> match_here s = Some m" by simp
    then show ?thesis by blast
  qed
qed

lemma match_github_SomeI:
  "match_here s \<noteq> None \<Longrightarrow> match_github (pre @ s) \<noteq> None"
proof (induction pre)
  case Nil
  then show ?case by (cases s) (auto split: option.splits)
next
  case (Cons c pre)
  then show ?case by (auto split: option.splits)
qed

lemma match_github_iff:
  "(match_github u \<noteq> None) =
   (\<exists>pre owner repo post. u = pre @ github_prefix @ owner @ ''/'' @ repo @ post \<and>
      owner \<noteq> [] \<and> repo \<noteq> [] \<and> list_all not_slash owner \<and> list_all not_slash repo)"
proof
  assume "match_github u \<noteq> None"
  then obtain owner repo where "match_github u = Some (owner, repo)" by auto
  then obtain pre s where u: "u = pre @ s" and "match_here s = Some (owner, repo)"
    using match_github_SomeD by blast
  then obtain post where "s = github_prefix @ owner @ ''/'' @ repo @ post"
    "owner \<noteq> []" "repo \<noteq> []" "list_all not_slash owner" "list_all not_slash repo"
    using match_here_SomeD by blast
  with u show "\<exists>pre owner repo post. u = pre @ github_prefix @ owner @ ''/'' @ repo @ post \<and>
      owner \<noteq> [] \<and> repo \<noteq> [] \<and> list_all not_slash owner \<and> list_all not_slash repo"
    by blast
next
  assume "\<exists>pre owner repo post. u = pre @ github_prefix @ owner @ ''/'' @ repo @ post \<and>
      owner \<noteq> [] \<and> repo \<noteq> [] \<and> list_all not_slash owner \<and> list_all not_slash repo"
  then obtain pre owner repo post where u: "u = pre @ github_prefix @ owner @ ''/'' @ repo @ post"
    and *: "owner \<noteq> []" "repo \<noteq> []" "list_all not_slash owner" "list_all not_slash repo"
    by blast
  have "match_here (github_prefix @ owner @ ''/'' @ repo @ post) \<noteq> None"
    using match_here_SomeI [OF *] by simp
  then show "match_github u \<noteq> None"
    unfolding u by (rule match_github_SomeI)
qed

lemma exact_shape_matches:
  assumes "exact_github_shape u"
  shows "\<exists>owner repo. u = github_prefix @ owner @ ''/'' @ repo \<and> match_github u = Some (owner, repo)"
proof -
  define rest where "rest = drop (length github_prefix) u"
  define owner where "owner = takeWhile not_slash rest"
  define after where "after = dropWhile not_slash rest"
  from assms have pre: "take (length github_prefix) u = github_prefix"
    and "owner \<noteq> []" and after: "after \<noteq> []" and "tl after \<noteq> []"
    and r: "list_all not_slash (tl after)"
    by (auto simp: exact_github_shape_def Let_def rest_def owner_def after_def)
  have u: "u = github_prefix @ rest"
    using pre append_take_drop_id [of "length github_prefix" u] by (simp add: rest_def)
  have rest: "rest = owner @ after" by (simp add: owner_def after_def)
  have "\<not> not_slash (hd after)"
    using after unfolding after_def by (rule hd_dropWhile)
  then have "hd after = CHR ''/''" by (simp add: not_slash_def)
  with after have a: "after = CHR ''/'' # tl after" by (cases after) auto
  have o: "list_all not_slash owner"
    by (auto simp: owner_def list_all_iff dest: set_takeWhileD)
  have eq: "u = github_prefix @ owner @ ''/'' @ tl after @ []"
    using u rest a by simp
  have "match_here u = Some (owner, tl after)"
    using match_here_SomeI [OF \<open>owner \<noteq> []\<close> \<open>tl after \<noteq> []\<close> o r, of "[]"] eq by simp
  moreover have "u \<noteq> []" using u by (simp add: github_prefix_def)
  ultimately have "match_github u = Some (owner, tl after)"
    by (cases u) auto
  with eq show ?thesis by auto
qed

lemma trim_Nil_iff: "(trim u = []) = (\<forall>c\<in>set u. is_ws c)"
proof -
  have "(dropWhile is_ws (rev (dropWhile is_ws u)) = []) = (dropWhile is_ws u = [])"
  proof (cases "dropWhile is_ws u")
    case Nil
    show ?thesis unfolding Nil by simp
  next
    case (Cons c cs)
    then have "\<not> is_ws c"
      using hd_dropWhile [of is_ws u] by simp
    with Cons show ?thesis by auto
  qed
  then show ?thesis by (simp add: trim_def)
qed

lemma match_github_not_blank:
  assumes "match_github u \<noteq> None"
  shows "trim u \<noteq> []"
proof -
  from assms obtain pre rest where "u = pre @ github_prefix @ rest"
    unfolding match_github_iff by blast
  then have "CHR ''h'' \<in> set u" by (simp add: github_prefix_def)
  moreover have "\<not> is_ws (CHR ''h'')" by (simp add: is_ws_def)
  ultimately show ?thesis unfolding trim_Nil_iff by blast
qed

lemma validateRepositoryUrls_body_no_match:
  assumes "match_github u = None"
  shows "validateRepositoryUrls_body K (JString u) s =
           (Completed, push ((if trim u = [] then ''Invalid repository URL: ''
                              else ''Invalid GitHub URL format: '') @ quoted u) s)"
  using assms by (simp add: validateRepositoryUrls_body_def)

section \<open>The URL check over a list\<close>

text \<open>
  The loop over \<^verbatim>\<open>repos\<close> reaches an entry when no earlier entry makes it throw, that is,
  when every earlier entry can be rendered as text (strings always can).
\<close>

lemma and_then_assoc: "and_then (and_then r f) g = and_then r (\<lambda>s. and_then (f s) g)"
  by (cases r, cases "fst r") (auto simp: and_then_def)

lemma for_each_append:
  "for_each body (xs @ ys) s = and_then (for_each body xs s) (for_each body ys)"
proof (induction xs arbitrary: s)
  case Nil
  show ?case by (simp add: and_then_def)
next
  case (Cons x xs)
  have "for_each body (xs @ ys) = (\<lambda>s. and_then (for_each body xs s) (for_each body ys))"
    by (rule ext) (rule Cons.IH)
  then show ?case by (simp add: and_then_assoc)
qed

lemma validateRepositoryUrls_body_completes:
  "renders url \<Longrightarrow> fst (validateRepositoryUrls_body K url s) = Completed"
  by (cases url)
     (auto simp: renders_def validateRepositoryUrls_body_def call_def split: option.splits response.splits)

lemma validateRepositoryUrls_completes:
  "list_all renders urls \<Longrightarrow> fst (validateRepositoryUrls K urls s) = Completed"
proof (induction urls arbitrary: s)
  case Nil
  show ?case by (simp add: validateRepositoryUrls_def)
next
  case (Cons url urls)
  obtain c s1 where b: "validateRepositoryUrls_body K url s = (c, s1)"
    by (cases "validateRepositoryUrls_body K url s")
  with Cons.prems validateRepositoryUrls_body_completes [of url K s] have "c = Completed" by simp
  with b Cons.prems Cons.IH [of s1] show ?case
    by (simp add: validateRepositoryUrls_def and_then_def)
qed

lemma validateRepositoryUrls_reaches:
  assumes "list_all renders pre"
  shows "\<exists>s1. validateRepositoryUrls K pre s = (Completed, s1) \<and>
           validateRepositoryUrls K (pre @ url # post) s =
             and_then (validateRepositoryUrls_body K url s1) (validateRepositoryUrls K post)"
proof -
  have loop: "validateRepositoryUrls K = for_each (validateRepositoryUrls_body K)"
    by (intro ext) (simp add: validateRepositoryUrls_def)
  obtain c s1 where r: "for_each (validateRepositoryUrls_body K) pre s = (c, s1)"
    by (cases "for_each (validateRepositoryUrls_body K) pre s")
  with validateRepositoryUrls_completes [OF assms, of K s] have c: "c = Completed"
    by (simp add: loop)
  have "for_each (validateRepositoryUrls_body K) (pre @ url # post) s =
          and_then (validateRepositoryUrls_body K url s1) (for_each (validateRepositoryUrls_body K) post)"
    using r c by (simp add: for_each_append and_then_def)
  with r c show ?thesis by (simp add: loop)
qed

lemma validateFlowEcosystemRequirements_skips:
  assumes "match_github u = None"
  shows "validateFlowEcosystemRequirements K J (pre @ JString u # post) s =
         validateFlowEcosystemRequirements K J (pre @ post) s"
proof (induction pre arbitrary: s)
  case Nil
  from assms show ?case by (simp add: validateFlowEcosystemRequirements_body_def)
next
  case (Cons url pre)
  then show ?case by (simp split: prod.splits control.splits)
qed

lemma validateRepositoryUrls_body_accepts:
  assumes "match_github u = Some (owner, repo)"
  shows "validateRepositoryUrls_body K (JString u) s =
           (Completed,
            case K (log s) (ReposGet (trim owner) (trim (strip_git repo))) of
              Rejected \<Rightarrow>
                push (''Repository '' @ quoted u @ '' is not valid or not found'')
                  (s\<lparr>log := log s @ [ReposGet (trim owner) (trim (strip_git repo))]\<rparr>)
            | Response st d \<Rightarrow>
                if st \<noteq> 200
                then push (''Repository '' @ quoted u @ '' is not accessible (status: '' @
                           string_of_nat st @ '')'')
                       (s\<lparr>log := log s @ [ReposGet (trim owner) (trim (strip_git repo))]\<rparr>)
                else s\<lparr>log := log s @ [ReposGet (trim owner) (trim (strip_git repo))]\<rparr>)"
  using assms match_github_not_blank [of u]
  by (simp add: validateRepositoryUrls_body_def call_def split: response.splits)

text \<open>
  Claim C7, as amended. Let \<^verbatim>\<open>repos\<close> hold a string in which the URL pattern matches nowhere
  (such as \<^verbatim>\<open>not-a-url\<close>), after entries that can all be rendered as text. Then the URL
  check over the whole list completes the earlier entries, appends exactly one error
  naming the string (the format error, or for a blank string the invalid URL error),
  makes no existence lookup for it and goes on with the later entries. The ecosystem
  check over the whole list behaves as if the string were not listed: no probe and no
  error for it, whatever the other entries are.
\<close>
theorem unparsable_url_one_error:
  assumes "match_github u = None" and "list_all renders pre"
  shows "(\<exists>s1. validateRepositoryUrls K pre s = (Completed, s1) \<and>
            validateRepositoryUrls K (pre @ JString u # post) s =
              validateRepositoryUrls K post
                (push ((if trim u = [] then ''Invalid repository URL: ''
                        else ''Invalid GitHub URL format: '') @ quoted u) s1) \<and>
            prefix (this_errors s1 @
                      [(if trim u = [] then ''Invalid repository URL: ''
                        else ''Invalid GitHub URL format: '') @ quoted u])
              (this_errors (snd (validateRepositoryUrls K (pre @ JString u # post) s)))) \<and>
         validateFlowEcosystemRequirements K J (pre @ JString u # post) s' =
           validateFlowEcosystemRequirements K J (pre @ post) s'"
proof -
  define m where "m = (if trim u = [] then ''Invalid repository URL: ''
                        else ''Invalid GitHub URL format: '') @ quoted u"
  obtain s1 where pre: "validateRepositoryUrls K pre s = (Completed, s1)"
    and whole: "validateRepositoryUrls K (pre @ JString u # post) s =
             and_then (validateRepositoryUrls_body K (JString u) s1) (validateRepositoryUrls K post)"
    using validateRepositoryUrls_reaches [OF assms(2)] by blast
  have eq: "validateRepositoryUrls K (pre @ JString u # post) s =
              validateRepositoryUrls K post (push m s1)"
    using whole validateRepositoryUrls_body_no_match [OF assms(1), of K s1]
    by (simp add: and_then_def m_def)
  have "grows (push m s1) (snd (validateRepositoryUrls K post (push m s1)))"
    by (rule grows_validateRepositoryUrls)
  then have "prefix (this_errors s1 @ [m])
               (this_errors (snd (validateRepositoryUrls K (pre @ JString u # post) s)))"
    by (simp add: eq grows_def push_def)
  with pre eq validateFlowEcosystemRequirements_skips [OF assms(1)] show ?thesis
    unfolding m_def by blast
qed

theorem unparsable_url_one_error_witness:
  "match_github ''not-a-url'' = None \<and> list_all renders [JNull] \<and>
   validateRepositoryUrls acme_octokit [JNull, JString ''not-a-url'', JString widget_url]
     new_RegistryValidator =
     (Completed,
      \<lparr>this_errors = [''Invalid repository URL: '' @ quoted ''null'',
                      ''Invalid GitHub URL format: '' @ quoted ''not-a-url''],
       log = [ReposGet ''acme'' ''widget'']\<rparr>) \<and>
   validateFlowEcosystemRequirements acme_octokit no_JSON
     [JNull, JString ''not-a-url'', JString widget_url] new_RegistryValidator =
   validateFlowEcosystemRequirements acme_octokit no_JSON
     [JNull, JString widget_url] new_RegistryValidator"
proof -
  have h: "match_github ''not-a-url'' = None"
    by (simp add: string_evals)
  have r: "list_all renders [JNull]"
    by (simp add: renders_def)
  have run: "validateRepositoryUrls acme_octokit [JNull, JString ''not-a-url'', JString widget_url]
     new_RegistryValidator =
     (Completed,
      \<lparr>this_errors = [''Invalid repository URL: '' @ quoted ''null'',
                      ''Invalid GitHub URL format: '' @ quoted ''not-a-url''],
       log = [ReposGet ''acme'' ''widget'']\<rparr>)"
    by (simp add: validateRepositoryUrls_def validateRepositoryUrls_body_def and_then_def
        widget_url_def string_evals call_def push_def acme_octokit_def new_RegistryValidator_def)
  show ?thesis
    using h r run
      unparsable_url_one_error [OF h r, of acme_octokit new_RegistryValidator "[JString widget_url]"
        no_JSON new_RegistryValidator]
    by simp
qed

text \<open>
  Claim C7 as stated fails: after an entry that is a mapping with a property
  \<^verbatim>\<open>toString\<close> of its own, rendering the entry throws outside the \<^verbatim>\<open>try\<close> of the loop, the
  URL check is abandoned, and the string \<^verbatim>\<open>not-a-url\<close> behind it gets no format error; the
  run reports the exception alone.
\<close>

theorem unrendered_entry_hides_url:
  "match_github ''not-a-url'' = None \<and>
   fst (validateRepositoryUrls acme_octokit
     [JObject [(''toString'', JString ''x'')], JString ''not-a-url''] new_RegistryValidator) \<noteq>
     Completed \<and>
   snd (validateRepositoryUrls acme_octokit
     [JObject [(''toString'', JString ''x'')], JString ''not-a-url''] new_RegistryValidator) =
     new_RegistryValidator \<and>
   length (errors (fst (validateRegistry acme_octokit no_JSON
     (Loaded (JArray [JObject [(''name'', JString ''Team''), (''github'', JArray [JString ''alice'']),
        (''repos'', JArray [JObject [(''toString'', JString ''x'')], JString ''not-a-url''])]]))
     new_RegistryValidator))) = 1 \<and>
   ''Invalid GitHub URL format: '' @ quoted ''not-a-url'' \<notin> set (errors (fst (validateRegistry
     acme_octokit no_JSON
     (Loaded (JArray [JObject [(''name'', JString ''Team''), (''github'', JArray [JString ''alice'']),
        (''repos'', JArray [JObject [(''toString'', JString ''x'')], JString ''not-a-url''])]]))
     new_RegistryValidator)))"
  by (simp add: validateRegistry_def entries_of_def validateRequiredFields_def if_array_def
      and_then_def finish_def parse_failure_def
      validateGitHubHandles_def validateGitHubHandles_body_def
      validateRepositoryUrls_def validateRepositoryUrls_body_def
      string_evals call_def push_def acme_octokit_def new_RegistryValidator_def)

text \<open>
  Claim C3, as amended. Let \<^verbatim>\<open>repos\<close> hold a string after entries that can all be rendered
  as text. The URL check over the whole list goes on to the existence lookup for the
  string (for the owner and repo of the leftmost match, trimmed, a final \<^verbatim>\<open>.git\<close> of the
  repo removed; an error is appended only when the lookup fails) exactly when the string
  contains somewhere \<^verbatim>\<open>https://github.com/\<close>, a non-empty owner without slash, a slash
  and a non-empty repo without slash; text before and after the match is ignored. With
  no such occurrence it appends one error naming the string and makes no lookup: the
  format error, or for a blank string the invalid URL error. Every string of exactly the
  shape has such an occurrence, with its own owner and repo.
\<close>
theorem url_accepted_iff_pattern_occurs:
  assumes "list_all renders pre"
  shows "\<exists>s1. validateRepositoryUrls K pre s = (Completed, s1) \<and>
     ((\<exists>owner repo. match_github u = Some (owner, repo) \<and>
         validateRepositoryUrls K (pre @ JString u # post) s =
           validateRepositoryUrls K post
             (case K (log s1) (ReposGet (trim owner) (trim (strip_git repo))) of
                Rejected \<Rightarrow>
                  push (''Repository '' @ quoted u @ '' is not valid or not found'')
                    (s1\<lparr>log := log s1 @ [ReposGet (trim owner) (trim (strip_git repo))]\<rparr>)
              | Response st d \<Rightarrow>
                  if st \<noteq> 200
                  then push (''Repository '' @ quoted u @ '' is not accessible (status: '' @
                             string_of_nat st @ '')'')
                         (s1\<lparr>log := log s1 @ [ReposGet (trim owner) (trim (strip_git repo))]\<rparr>)
                  else s1\<lparr>log := log s1 @ [ReposGet (trim owner) (trim (strip_git repo))]\<rparr>)) =
      (\<exists>before owner repo after. u = before @ github_prefix @ owner @ ''/'' @ repo @ after \<and>
         owner \<noteq> [] \<and> repo \<noteq> [] \<and> list_all not_slash owner \<and> list_all not_slash repo)) \<and>
     (\<not> (\<exists>before owner repo after. u = before @ github_prefix @ owner @ ''/'' @ repo @ after \<and>
         owner \<noteq> [] \<and> repo \<noteq> [] \<and> list_all not_slash owner \<and> list_all not_slash repo) \<longrightarrow>
        validateRepositoryUrls K (pre @ JString u # post) s =
          validateRepositoryUrls K post
            (push ((if trim u = [] then ''Invalid repository URL: ''
                    else ''Invalid GitHub URL format: '') @ quoted u) s1)) \<and>
     (exact_github_shape u \<longrightarrow>
        (\<exists>owner repo. u = github_prefix @ owner @ ''/'' @ repo \<and>
           match_github u = Some (owner, repo)))"
proof -
  obtain s1 where pre: "validateRepositoryUrls K pre s = (Completed, s1)"
    and whole: "validateRepositoryUrls K (pre @ JString u # post) s =
             and_then (validateRepositoryUrls_body K (JString u) s1) (validateRepositoryUrls K post)"
    using validateRepositoryUrls_reaches [OF assms] by blast
  have accepted: "validateRepositoryUrls K (pre @ JString u # post) s =
           validateRepositoryUrls K post
             (case K (log s1) (ReposGet (trim owner) (trim (strip_git repo))) of
                Rejected \<Rightarrow>
                  push (''Repository '' @ quoted u @ '' is not valid or not found'')
                    (s1\<lparr>log := log s1 @ [ReposGet (trim owner) (trim (strip_git repo))]\<rparr>)
              | Response st d \<Rightarrow>
                  if st \<noteq> 200
                  then push (''Repository '' @ quoted u @ '' is not accessible (status: '' @
                             string_of_nat st @ '')'')
                         (s1\<lparr>log := log s1 @ [ReposGet (trim owner) (trim (strip_git repo))]\<rparr>)
                  else s1\<lparr>log := log s1 @ [ReposGet (trim owner) (trim (strip_git repo))]\<rparr>)"
    if "match_github u = Some (owner, repo)" for owner repo
    using whole validateRepositoryUrls_body_accepts [OF that, of K s1]
    by (simp add: and_then_def)
  have refused: "validateRepositoryUrls K (pre @ JString u # post) s =
          validateRepositoryUrls K post
            (push ((if trim u = [] then ''Invalid repository URL: ''
                    else ''Invalid GitHub URL format: '') @ quoted u) s1)"
    if "match_github u = None"
    using whole validateRepositoryUrls_body_no_match [OF that, of K s1]
    by (simp add: and_then_def)
  show ?thesis
  proof (cases "match_github u")
    case None
    with pre refused exact_shape_matches [of u] show ?thesis
      unfolding match_github_iff [symmetric] by (intro exI [of _ s1]) auto
  next
    case (Some m)
    obtain owner repo where "m = (owner, repo)" by (cases m)
    with Some have m: "match_github u = Some (owner, repo)" by simp
    with pre accepted [OF m] exact_shape_matches [of u] show ?thesis
      unfolding match_github_iff [symmetric] by (intro exI [of _ s1]) auto
  qed
qed

theorem url_accepted_iff_pattern_occurs_witness:
  "list_all renders [JNull] \<and> exact_github_shape widget_url \<and>
   (\<exists>owner repo. widget_url = github_prefix @ owner @ ''/'' @ repo \<and>
      match_github widget_url = Some (owner, repo)) \<and>
   validateRepositoryUrls acme_octokit [JNull, JString widget_url] new_RegistryValidator =
     (Completed,
      \<lparr>this_errors = [''Invalid repository URL: '' @ quoted ''null''],
       log = [ReposGet ''acme'' ''widget'']\<rparr>)"
proof -
  have r: "list_all renders [JNull]"
    by (simp add: renders_def)
  have h: "exact_github_shape widget_url"
    by (simp add: exact_github_shape_def widget_url_def github_prefix_def not_slash_def)
  have run: "validateRepositoryUrls acme_octokit [JNull, JString widget_url] new_RegistryValidator =
     (Completed,
      \<lparr>this_errors = [''Invalid repository URL: '' @ quoted ''null''],
       log = [ReposGet ''acme'' ''widget'']\<rparr>)"
    by (simp add: validateRepositoryUrls_def validateRepositoryUrls_body_def and_then_def
        widget_url_def string_evals call_def push_def acme_octokit_def new_RegistryValidator_def)
  show ?thesis
    using r h run
      url_accepted_iff_pattern_occurs [OF r, of acme_octokit new_RegistryValidator widget_url "[]"]
    by blast
qed

text \<open>
  Claim C3 as stated fails: a string with text after the repo, or before the scheme, is
  not of the exact shape and still goes to the existence lookup without any error; and a
  string of the exact shape gets no lookup when an earlier entry makes the loop throw.
\<close>

theorem longer_url_accepted:
  "\<not> exact_github_shape ''see https://github.com/acme/widget/issues'' \<and>
   validateRepositoryUrls acme_octokit [JString ''see https://github.com/acme/widget/issues'']
     new_RegistryValidator =
     (Completed, \<lparr>this_errors = [], log = [ReposGet ''acme'' ''widget'']\<rparr>) \<and>
   \<not> exact_github_shape ''https://github.com/acme/widget/issues'' \<and>
   validateRepositoryUrls acme_octokit [JString ''https://github.com/acme/widget/issues'']
     new_RegistryValidator =
     (Completed, \<lparr>this_errors = [], log = [ReposGet ''acme'' ''widget'']\<rparr>) \<and>
   exact_github_shape widget_url \<and>
   fst (validateRepositoryUrls acme_octokit
     [JObject [(''toString'', JString ''x'')], JString widget_url] new_RegistryValidator) \<noteq>
     Completed \<and>
   snd (validateRepositoryUrls acme_octokit
     [JObject [(''toString'', JString ''x'')], JString widget_url] new_RegistryValidator) =
     new_RegistryValidator"
  by (simp add: exact_github_shape_def validateRepositoryUrls_def validateRepositoryUrls_body_def
      and_then_def widget_url_def string_evals call_def acme_octokit_def new_RegistryValidator_def)


section \<open>Wallet addresses\<close>

lemma get_prop_defined: "get_prop v k = Some x \<Longrightarrow> \<exists>y. get_prop v k' = Some y"
  by (cases v) (simp_all split: option.splits)

lemma check_address_iff: "check_address n a = (\<not> hex_address n a)"
proof -
  have "length a = n + 2" if "take 2 a = ''0x''" "length (drop 2 a) = n"
  proof -
    have "length (take 2 a) = 2" using that(1) by simp
    then have "2 \<le> length a" by simp
    with that(2) show ?thesis by simp
  qed
  then show ?thesis
    by (auto simp: check_address_def hex_address_def)
qed

lemma is_evm_error_evm_message [simp]: "is_evm_error (evm_message a)"
  by (simp add: is_evm_error_def evm_message_def)

lemma is_evm_error_flow_message [simp]: "\<not> is_evm_error (flow_message a)"
  by (simp add: is_evm_error_def flow_message_def)

lemma is_evm_error_missing_flow [simp]:
  "\<not> is_evm_error ''Missing or invalid 'flow' wallet address''"
  by (simp add: is_evm_error_def)

lemma evm_errors_validateWalletAddresses:
  assumes "get_prop wallets ''evm'' = Some (JString e)" and "e \<noteq> []"
  shows "filter is_evm_error (appended s (snd (validateWalletAddresses wallets s))) =
           (if hex_address 40 (trim e) then [] else [evm_message (trim e)])"
proof -
  from assms(1) obtain flow where "get_prop wallets ''flow'' = Some flow"
    using get_prop_defined by blast
  with assms show ?thesis
    by (auto simp: validateWalletAddresses_def Let_def appended_def push_def check_address_iff
        split: jsvalue.splits)
qed

lemma evm_errors_validateWalletAddresses_strict:
  assumes "get_prop wallets ''evm'' = Some (JString e)" and "e \<noteq> []"
  shows "filter is_evm_error (appended s (snd (validateWalletAddresses_strict wallets s))) =
           (if hex_address 40 (trim e) then [] else [evm_message (trim e)])"
proof -
  from assms(1) obtain flow where "get_prop wallets ''flow'' = Some flow"
    using get_prop_defined by blast
  with assms show ?thesis
    by (auto simp: validateWalletAddresses_strict_def Let_def appended_def push_def check_address_iff
        split: jsvalue.splits)
qed

lemma finish_invalid:
  assumes "fst r \<noteq> Completed \<or> this_errors (snd r) \<noteq> []"
  shows "\<not> isValid (fst (finish r))"
  using assms by (cases r, cases "fst r") (auto simp: finish_def parse_failure_def Let_def)

lemma and_then_keeps_failure:
  assumes "fst r \<noteq> Completed \<or> this_errors (snd r) \<noteq> []"
    and "\<And>s. grows s (snd (f s))"
  shows "fst (and_then r f) \<noteq> Completed \<or> this_errors (snd (and_then r f)) \<noteq> []"
proof (cases r)
  case (Pair c s1)
  show ?thesis
  proof (cases c)
    case Completed
    with Pair assms(1) have "this_errors s1 \<noteq> []" by simp
    moreover have "grows s1 (snd (f s1))" by (rule assms(2))
    ultimately have "this_errors (snd (f s1)) \<noteq> []" by (auto simp: grows_def)
    with Pair Completed show ?thesis by (simp add: and_then_def)
  next
    case (Thrown e)
    with Pair show ?thesis by (simp add: and_then_def)
  qed
qed

lemma wallet_step_fails:
  assumes "get_prop wallets ''evm'' = Some (JString e)" and "e \<noteq> []" and "\<not> hex_address 40 (trim e)"
  shows "this_errors (snd (if_truthy (Some wallets) validateWalletAddresses s)) \<noteq> []"
    and "this_errors (snd (if_truthy (Some wallets) validateWalletAddresses_strict s)) \<noteq> []"
proof -
  from assms(1) obtain kvs where w: "wallets = JObject kvs"
    by (cases wallets) auto
  from assms(1) obtain flow where f: "get_prop wallets ''flow'' = Some flow"
    using get_prop_defined by blast
  show "this_errors (snd (if_truthy (Some wallets) validateWalletAddresses s)) \<noteq> []"
    using assms f w
    by (auto simp: if_truthy_def validateWalletAddresses_def Let_def push_def check_address_iff
        simp del: get_prop.simps split: jsvalue.splits)
  show "this_errors (snd (if_truthy (Some wallets) validateWalletAddresses_strict s)) \<noteq> []"
    using assms f w
    by (auto simp: if_truthy_def validateWalletAddresses_strict_def Let_def push_def check_address_iff
        simp del: get_prop.simps split: jsvalue.splits)
qed

lemma and_then_wallet_fails:
  assumes "\<And>s. this_errors (snd (f s)) \<noteq> []"
  shows "fst (and_then r f) \<noteq> Completed \<or> this_errors (snd (and_then r f)) \<noteq> []"
  using assms by (cases r, cases "fst r") (auto simp: and_then_def)

lemma malformed_evm_invalid:
  assumes "entry_under_test items = Some entry"
    and "get_prop entry ''wallets'' = Some wallets"
    and "get_prop wallets ''evm'' = Some (JString e)" and "e \<noteq> []"
    and "\<not> hex_address 40 (trim e)"
  shows "\<not> isValid (fst (validateRegistry K J (Loaded (JArray items)) s))"
    and "\<not> isValid (fst (validateRegistry_strict K (Loaded (JArray items)) s))"
proof -
  from assms(1) have ne: "entries_of items \<noteq> []" and last: "last (entries_of items) = entry"
    by (auto simp: entry_under_test_def split: if_splits)
  note w = wallet_step_fails [OF assms(3,4,5)]
  show "\<not> isValid (fst (validateRegistry K J (Loaded (JArray items)) s))"
    using ne last
    by (simp add: validateRegistry_def Let_def assms(2) del: get_prop.simps)
       (intro finish_invalid and_then_keeps_failure and_then_wallet_fails w(1)
          grows_if_array grows_validateXHandles)
  show "\<not> isValid (fst (validateRegistry_strict K (Loaded (JArray items)) s))"
    using ne last
    by (simp add: validateRegistry_strict_def Let_def assms(2) del: get_prop.simps)
       (intro finish_invalid and_then_wallet_fails w(2))
qed

text \<open>
  Claim C4, as amended. For wallets whose \<^verbatim>\<open>evm\<close> field is a non-empty string, the wallet
  check (of either variant) appends exactly one EVM address error, naming the trimmed
  value, when the value with surrounding whitespace removed is not \<^verbatim>\<open>0x\<close> followed by 40
  hexadecimal characters, and no EVM address error otherwise. When it is the entry under
  test that holds such a malformed value, the run is invalid.
\<close>
theorem evm_error_iff_trimmed_mismatch:
  assumes "get_prop wallets ''evm'' = Some (JString e)" and "e \<noteq> []"
  shows "filter is_evm_error (appended s (snd (validateWalletAddresses wallets s))) =
           (if hex_address 40 (trim e) then [] else [evm_message (trim e)]) \<and>
         filter is_evm_error (appended s (snd (validateWalletAddresses_strict wallets s))) =
           (if hex_address 40 (trim e) then [] else [evm_message (trim e)]) \<and>
         (entry_under_test items = Some entry \<and> get_prop entry ''wallets'' = Some wallets \<and>
          \<not> hex_address 40 (trim e) \<longrightarrow>
            \<not> isValid (fst (validateRegistry K J (Loaded (JArray items)) s')) \<and>
            \<not> isValid (fst (validateRegistry_strict K (Loaded (JArray items)) s')))"
  using evm_errors_validateWalletAddresses [OF assms] evm_errors_validateWalletAddresses_strict [OF assms]
    malformed_evm_invalid [of items entry wallets e, OF _ _ assms]
  by blast

theorem evm_error_iff_trimmed_mismatch_witness:
  "get_prop (JObject [(''evm'', JString ''0x123'')]) ''evm'' = Some (JString ''0x123'') \<and>
   entry_under_test [team_entry] = Some team_entry \<and>
   get_prop team_entry ''wallets'' = Some (JObject [(''evm'', JString ''0x123'')]) \<and>
   \<not> hex_address 40 (trim ''0x123'') \<and>
   validateWalletAddresses (JObject [(''evm'', JString ''0x123'')]) new_RegistryValidator =
     (Completed, \<lparr>this_errors = [evm_message ''0x123''], log = []\<rparr>) \<and>
   filter is_evm_error (appended new_RegistryValidator
     (snd (validateWalletAddresses (JObject [(''evm'', JString ''0x123'')]) new_RegistryValidator))) =
     [evm_message ''0x123''] \<and>
   \<not> isValid (fst (validateRegistry acme_octokit no_JSON (Loaded (JArray [team_entry]))
      new_RegistryValidator))"
proof -
  have a: "get_prop (JObject [(''evm'', JString ''0x123'')]) ''evm'' = Some (JString ''0x123'')"
    and b: "''0x123'' \<noteq> []"
    and c: "entry_under_test [team_entry] = Some team_entry"
    and d: "get_prop team_entry ''wallets'' = Some (JObject [(''evm'', JString ''0x123'')])"
    and e: "\<not> hex_address 40 (trim ''0x123'')"
    and t: "trim ''0x123'' = ''0x123''"
    by (simp_all add: entry_under_test_def entries_of_def team_entry_def hex_address_def trim_def
        is_ws_def)
  have r: "validateWalletAddresses (JObject [(''evm'', JString ''0x123'')]) new_RegistryValidator =
     (Completed, \<lparr>this_errors = [evm_message ''0x123''], log = []\<rparr>)"
    by (simp add: validateWalletAddresses_def check_address_def hex_address_def t push_def
        new_RegistryValidator_def)
  show ?thesis
    using a c d e r t
      evm_error_iff_trimmed_mismatch [OF a b, of new_RegistryValidator "[team_entry]" team_entry
        acme_octokit no_JSON new_RegistryValidator]
    by simp
qed

text \<open>
  Claim C4 as stated fails: a well-formed address with a leading space does not match
  the exact shape, and neither does the empty string, yet the wallet check of the
  registry variant appends no error for either.
\<close>

theorem padded_evm_accepted:
  "\<not> hex_address 40 '' 0x0000000000000000000000000000000000000000'' \<and>
   validateWalletAddresses
     (JObject [(''evm'', JString '' 0x0000000000000000000000000000000000000000'')])
     new_RegistryValidator = (Completed, new_RegistryValidator) \<and>
   \<not> hex_address 40 [] \<and>
   validateWalletAddresses (JObject [(''evm'', JString [])]) new_RegistryValidator =
     (Completed, new_RegistryValidator)"
  by (simp add: validateWalletAddresses_def check_address_def hex_address_def trim_def is_ws_def
      is_hex_def)


section \<open>Identical responses\<close>

text \<open>
  A run asks the service a sequence of requests, recorded in the log. When a second
  service answers each of these requests, after the same history, as the first one did,
  every operation of the validator behaves alike with both.
\<close>

lemma agree_from_append:
  "agree_from K1 K2 h (xs @ ys) = (agree_from K1 K2 h xs \<and> agree_from K1 K2 (h @ xs) ys)"
  by (induction xs arbitrary: h) auto

lemma same_responses_snoc:
  "same_responses K1 K2 (l @ [r]) = (same_responses K1 K2 l \<and> K1 l r = K2 l r)"
  by (simp add: same_responses_def agree_from_append)

lemma same_responses_prefix:
  assumes "same_responses K1 K2 l" and "prefix l' l"
  shows "same_responses K1 K2 l'"
proof -
  from assms(2) obtain zs where "l = l' @ zs" by (auto simp: prefix_def)
  with assms(1) show ?thesis by (simp add: same_responses_def agree_from_append)
qed

lemma same_responses_grows:
  "same_responses K1 K2 (log s') \<Longrightarrow> grows s s' \<Longrightarrow> same_responses K1 K2 (log s)"
  by (auto simp: grows_def intro: same_responses_prefix)

lemma grows_snd_and_then:
  assumes "\<And>s. grows s (snd (f s))"
  shows "grows (snd r) (snd (and_then r f))"
  by (rule grows_and_then) (simp, rule assms)

lemma and_then_stable:
  assumes same: "same_responses K1 K2 (log (snd (and_then r1 g1)))"
    and r: "same_responses K1 K2 (log (snd r1)) \<Longrightarrow> r2 = r1"
    and g: "\<And>s. same_responses K1 K2 (log (snd (g1 s))) \<Longrightarrow> g2 s = g1 s"
    and gg: "\<And>s. grows s (snd (g1 s))"
  shows "and_then r2 g2 = and_then r1 g1"
proof -
  have "same_responses K1 K2 (log (snd r1))"
    using same grows_snd_and_then [of g1 r1, OF gg] by (rule same_responses_grows)
  then have eq: "r2 = r1" by (rule r)
  show ?thesis
  proof (cases r1)
    case (Pair c s1)
    show ?thesis
    proof (cases c)
      case Completed
      with Pair same have "same_responses K1 K2 (log (snd (g1 s1)))"
        by (simp add: and_then_def)
      then have "g2 s1 = g1 s1" by (rule g)
      with Pair Completed eq show ?thesis by (simp add: and_then_def)
    next
      case (Thrown e)
      with Pair eq show ?thesis by (simp add: and_then_def)
    qed
  qed
qed

lemma for_each_stable:
  assumes body: "\<And>x s. same_responses K1 K2 (log (snd (body1 x s))) \<Longrightarrow> body2 x s = body1 x s"
    and grow: "\<And>x s. grows s (snd (body1 x s))"
  shows "same_responses K1 K2 (log (snd (for_each body1 xs s))) \<Longrightarrow>
         for_each body2 xs s = for_each body1 xs s"
proof (induction xs arbitrary: s)
  case Nil
  show ?case by simp
next
  case (Cons x xs)
  show ?case
    unfolding for_each.simps
  proof (rule and_then_stable)
    show "same_responses K1 K2 (log (snd (and_then (body1 x s) (for_each body1 xs))))"
      using Cons.prems by simp
    show "same_responses K1 K2 (log (snd (body1 x s))) \<Longrightarrow> body2 x s = body1 x s"
      by (rule body)
    show "\<And>s. same_responses K1 K2 (log (snd (for_each body1 xs s))) \<Longrightarrow>
            for_each body2 xs s = for_each body1 xs s"
      by (rule Cons.IH)
    show "\<And>s. grows s (snd (for_each body1 xs s))"
      by (rule grows_for_each) (rule grow)
  qed
qed

lemma validateGitHubHandles_body_stable:
  "same_responses K1 K2 (log (snd (validateGitHubHandles_body K1 handle s))) \<Longrightarrow>
   validateGitHubHandles_body K2 handle s = validateGitHubHandles_body K1 handle s"
  by (cases handle)
     (auto simp: validateGitHubHandles_body_def call_def push_def same_responses_snoc
       split: response.splits if_splits)

lemma validateGitHubHandles_stable:
  "same_responses K1 K2 (log (snd (validateGitHubHandles K1 handles s))) \<Longrightarrow>
   validateGitHubHandles K2 handles s = validateGitHubHandles K1 handles s"
  unfolding validateGitHubHandles_def
  by (rule for_each_stable) (simp_all add: validateGitHubHandles_body_stable grows_validateGitHubHandles_body)

lemma validateRepositoryUrls_body_stable:
  "same_responses K1 K2 (log (snd (validateRepositoryUrls_body K1 url s))) \<Longrightarrow>
   validateRepositoryUrls_body K2 url s = validateRepositoryUrls_body K1 url s"
  by (cases url)
     (auto simp: validateRepositoryUrls_body_def call_def push_def same_responses_snoc
       split: response.splits if_splits option.splits)

lemma validateRepositoryUrls_stable:
  "same_responses K1 K2 (log (snd (validateRepositoryUrls K1 urls s))) \<Longrightarrow>
   validateRepositoryUrls K2 urls s = validateRepositoryUrls K1 urls s"
  unfolding validateRepositoryUrls_def
  by (rule for_each_stable) (simp_all add: validateRepositoryUrls_body_stable grows_validateRepositoryUrls_body)

lemma readme_probe_stable:
  "same_responses K1 K2 (log s @ [GetContent owner repo ''README.md'']) \<Longrightarrow>
   readme_probe K2 owner repo s = readme_probe K1 owner repo s"
  by (simp add: readme_probe_def call_def same_responses_snoc)

lemma package_probe_stable:
  "same_responses K1 K2 (log s @ [GetContent owner repo ''package.json'']) \<Longrightarrow>
   package_probe K2 J owner repo s = package_probe K1 J owner repo s"
  by (simp add: package_probe_def call_def same_responses_snoc)

lemma gomod_probe_stable:
  "same_responses K1 K2 (log s @ [GetContent owner repo ''go.mod'']) \<Longrightarrow>
   gomod_probe K2 owner repo s = gomod_probe K1 owner repo s"
  by (simp add: gomod_probe_def call_def same_responses_snoc)

lemma config_files_loop_stable:
  "same_responses K1 K2 (log (snd (config_files_loop K1 owner repo names s))) \<Longrightarrow>
   config_files_loop K2 owner repo names s = config_files_loop K1 owner repo names s"
proof (induction names arbitrary: s)
  case Nil
  show ?case by simp
next
  case (Cons name names)
  show ?case
  proof (cases "name = ''hardhat.config.js'' \<or> name = ''hardhat.config.ts''")
    case False
    with Cons show ?thesis by simp
  next
    case True
    define s1 where "s1 = s\<lparr>log := log s @ [GetContent owner repo name]\<rparr>"
    have final: "snd (config_files_loop K1 owner repo (name # names) s) = s1 \<or>
                 snd (config_files_loop K1 owner repo (name # names) s) =
                 snd (config_files_loop K1 owner repo names s1)"
      using True by (auto simp: call_def s1_def split: response.splits payload.splits)
    have "prefix (log s1) (log (snd (config_files_loop K1 owner repo names s1)))"
      using config_files_loop_state [of K1 owner repo names s1] by simp
    with final Cons.prems have "same_responses K1 K2 (log s1)"
      by (auto intro: same_responses_prefix)
    then have resp: "K2 (log s) (GetContent owner repo name) = K1 (log s) (GetContent owner repo name)"
      by (simp add: s1_def same_responses_snoc)
    show ?thesis
    proof (cases "snd (config_files_loop K1 owner repo (name # names) s) =
                  snd (config_files_loop K1 owner repo names s1)")
      case True
      with Cons.prems have "config_files_loop K2 owner repo names s1 =
                            config_files_loop K1 owner repo names s1"
        by (intro Cons.IH) simp
      then show ?thesis
        using \<open>name = ''hardhat.config.js'' \<or> name = ''hardhat.config.ts''\<close> resp
        by (auto simp: call_def s1_def split: response.splits payload.splits)
    next
      case False
      then show ?thesis
        using \<open>name = ''hardhat.config.js'' \<or> name = ''hardhat.config.ts''\<close> resp
        by (auto simp: call_def s1_def split: response.splits payload.splits)
    qed
  qed
qed

lemma solidity_probe_stable:
  assumes "same_responses K1 K2 (log (snd (solidity_probe K1 owner repo s)))"
  shows "solidity_probe K2 owner repo s = solidity_probe K1 owner repo s"
proof -
  define s1 where "s1 = s\<lparr>log := log s @ [GetContent owner repo []]\<rparr>"
  have "prefix (log s1) (log (snd (solidity_probe K1 owner repo s)))"
    using solidity_probe_state [of K1 owner repo s] by (simp add: s1_def)
  with assms have "same_responses K1 K2 (log s1)" by (rule same_responses_prefix)
  then have resp: "K2 (log s) (GetContent owner repo []) = K1 (log s) (GetContent owner repo [])"
    by (simp add: s1_def same_responses_snoc)
  show ?thesis
  proof (cases "K1 (log s) (GetContent owner repo [])")
    case Rejected
    with resp show ?thesis by (simp add: solidity_probe_def call_def)
  next
    case (Response st d)
    show ?thesis
    proof (cases "\<exists>names. d = Listing names \<and> st = 200 \<and> hasSolidityConfig names")
      case False
      with Response resp show ?thesis
        by (cases d) (auto simp: solidity_probe_def call_def)
    next
      case True
      then obtain names where d: "d = Listing names" "st = 200" "hasSolidityConfig names" by blast
      with Response have run: "solidity_probe K1 owner repo s = config_files_loop K1 owner repo names s1"
        by (simp add: solidity_probe_def call_def s1_def)
      with assms have "config_files_loop K2 owner repo names s1 = config_files_loop K1 owner repo names s1"
        by (intro config_files_loop_stable) simp
      with Response resp d show ?thesis
        by (simp add: solidity_probe_def call_def s1_def)
    qed
  qed
qed

lemma validateFlowEcosystemRequirements_body_stable:
  assumes same: "same_responses K1 K2 (log (snd (validateFlowEcosystemRequirements_body K1 J url s)))"
  shows "validateFlowEcosystemRequirements_body K2 J url s =
         validateFlowEcosystemRequirements_body K1 J url s"
proof (cases url)
  case (JString u)
  show ?thesis
  proof (cases "match_github u")
    case None
    with JString show ?thesis by (simp add: validateFlowEcosystemRequirements_body_def)
  next
    case (Some m)
    obtain owner repo where m: "m = (owner, repo)" by (cases m)
    define ow where "ow = trim owner"
    define rn where "rn = trim (strip_git repo)"
    define s1 where "s1 = s\<lparr>log := log s @ [GetContent ow rn ''README.md'']\<rparr>"
    define s2 where "s2 = s1\<lparr>log := log s1 @ [GetContent ow rn ''package.json'']\<rparr>"
    define s3 where "s3 = s2\<lparr>log := log s2 @ [GetContent ow rn ''go.mod'']\<rparr>"
    define b1 where "b1 = fst (readme_probe K1 ow rn s)"
    define b2 where "b2 = fst (package_probe K1 J ow rn s1)"
    define b3 where "b3 = fst (gomod_probe K1 ow rn s2)"
    have p1: "readme_probe K1 ow rn s = (b1, s1)"
      using readme_probe_state [of K1 ow rn s] by (simp add: b1_def s1_def prod_eq_iff)
    have p2: "package_probe K1 J ow rn s1 = (b2, s2)"
      using package_probe_state [of K1 J ow rn s1] by (simp add: b2_def s2_def prod_eq_iff)
    have p3: "gomod_probe K1 ow rn s2 = (b3, s3)"
      using gomod_probe_state [of K1 ow rn s2] by (simp add: b3_def s3_def prod_eq_iff)
    have q1: "readme_probe K2 ow rn s = (b1, s1)" if "same_responses K1 K2 (log s1)"
      using that readme_probe_stable [of K1 K2 s ow rn] p1 by (simp add: s1_def)
    have q2: "package_probe K2 J ow rn s1 = (b2, s2)" if "same_responses K1 K2 (log s2)"
      using that package_probe_stable [of K1 K2 s1 ow rn J] p2 by (simp add: s2_def)
    have q3: "gomod_probe K2 ow rn s2 = (b3, s3)" if "same_responses K1 K2 (log s3)"
      using that gomod_probe_stable [of K1 K2 s2 ow rn] p3 by (simp add: s3_def)
    have l12: "prefix (log s1) (log s2)" and l23: "prefix (log s2) (log s3)"
      by (simp_all add: s2_def s3_def)
    note unfold = validateFlowEcosystemRequirements_body_def JString Some m Let_def
      ow_def [symmetric] rn_def [symmetric]
    show ?thesis
    proof (cases b1)
      case True
      then have "validateFlowEcosystemRequirements_body K1 J url s = (Return, s1)"
        by (simp add: unfold p1)
      moreover from this same have "same_responses K1 K2 (log s1)" by simp
      ultimately show ?thesis using True by (simp add: unfold q1)
    next
      case n1: False
      show ?thesis
      proof (cases b2)
        case True
        then have "validateFlowEcosystemRequirements_body K1 J url s = (Continue, s2)"
          using n1 by (simp add: unfold p1 p2)
        moreover from this same have e2: "same_responses K1 K2 (log s2)" by simp
        moreover from e2 l12 have "same_responses K1 K2 (log s1)" by (rule same_responses_prefix)
        ultimately show ?thesis using n1 True by (simp add: unfold q1 q2)
      next
        case n2: False
        show ?thesis
        proof (cases b3)
          case True
          then have "validateFlowEcosystemRequirements_body K1 J url s = (Continue, s3)"
            using n1 n2 by (simp add: unfold p1 p2 p3)
          moreover from this same have e3: "same_responses K1 K2 (log s3)" by simp
          moreover from e3 l23 have e2: "same_responses K1 K2 (log s2)" by (rule same_responses_prefix)
          moreover from e2 l12 have "same_responses K1 K2 (log s1)" by (rule same_responses_prefix)
          ultimately show ?thesis using n1 n2 True by (simp add: unfold q1 q2 q3)
        next
          case n3: False
          obtain b4 s4 where p4: "solidity_probe K1 ow rn s3 = (b4, s4)"
            by (cases "solidity_probe K1 ow rn s3")
          have run: "validateFlowEcosystemRequirements_body K1 J url s =
                     (if b4 then (Return, s4) else (Continue, push (ecosystem_message u) s4))"
            using n1 n2 n3 by (simp add: unfold p1 p2 p3 p4)
          with same have e4: "same_responses K1 K2 (log s4)"
            by (simp add: push_def split: if_splits)
          then have q4: "solidity_probe K2 ow rn s3 = (b4, s4)"
            using solidity_probe_stable [of K1 K2 ow rn s3] p4 by simp
          have "grows s3 s4"
            using grows_solidity_probe [of s3 K1 ow rn] p4 by simp
          with e4 have e3: "same_responses K1 K2 (log s3)" by (rule same_responses_grows)
          from e3 l23 have e2: "same_responses K1 K2 (log s2)" by (rule same_responses_prefix)
          from e2 l12 have e1: "same_responses K1 K2 (log s1)" by (rule same_responses_prefix)
          show ?thesis
            using n1 n2 n3 run by (simp add: unfold q1 [OF e1] q2 [OF e2] q3 [OF e3] q4)
        qed
      qed
    qed
  qed
qed (simp_all add: validateFlowEcosystemRequirements_body_def)

lemma validateFlowEcosystemRequirements_stable:
  "same_responses K1 K2 (log (validateFlowEcosystemRequirements K1 J urls s)) \<Longrightarrow>
   validateFlowEcosystemRequirements K2 J urls s = validateFlowEcosystemRequirements K1 J urls s"
proof (induction urls arbitrary: s)
  case Nil
  show ?case by simp
next
  case (Cons url urls)
  obtain c s1 where b: "validateFlowEcosystemRequirements_body K1 J url s = (c, s1)"
    by (cases "validateFlowEcosystemRequirements_body K1 J url s")
  have "grows s1 (validateFlowEcosystemRequirements K1 J (url # urls) s)"
    using b grows_validateFlowEcosystemRequirements [of s1 K1 J urls] by (cases c) simp_all
  with Cons.prems have "same_responses K1 K2 (log s1)" by (rule same_responses_grows)
  then have b2: "validateFlowEcosystemRequirements_body K2 J url s = (c, s1)"
    using validateFlowEcosystemRequirements_body_stable [of K1 K2 J url s] b by simp
  show ?case
  proof (cases c)
    case Return
    with b b2 show ?thesis by simp
  next
    case Continue
    with b Cons.prems have "same_responses K1 K2 (log (validateFlowEcosystemRequirements K1 J urls s1))"
      by simp
    then have "validateFlowEcosystemRequirements K2 J urls s1 =
               validateFlowEcosystemRequirements K1 J urls s1"
      by (rule Cons.IH)
    with b b2 Continue show ?thesis by simp
  qed
qed

lemma if_array_stable:
  assumes "\<And>xs s. same_responses K1 K2 (log (snd (f1 xs s))) \<Longrightarrow> f2 xs s = f1 xs s"
  shows "same_responses K1 K2 (log (snd (if_array v f1 s))) \<Longrightarrow> if_array v f2 s = if_array v f1 s"
  using assms by (auto simp: if_array_def split: option.splits jsvalue.splits)

lemma repos_checks_stable:
  assumes "same_responses K1 K2 (log (snd (and_then (validateRepositoryUrls K1 urls s)
      (\<lambda>s. (Completed, validateFlowEcosystemRequirements K1 J urls s)))))"
  shows "and_then (validateRepositoryUrls K2 urls s)
           (\<lambda>s. (Completed, validateFlowEcosystemRequirements K2 J urls s)) =
         and_then (validateRepositoryUrls K1 urls s)
           (\<lambda>s. (Completed, validateFlowEcosystemRequirements K1 J urls s))"
  using assms
  by (rule and_then_stable)
     (simp_all add: validateRepositoryUrls_stable validateFlowEcosystemRequirements_stable
        grows_validateFlowEcosystemRequirements)

lemma checks_stable:
  assumes "same_responses K1 K2 (log (snd
     (and_then (and_then (and_then (and_then
        (validateRequiredFields entry s)
        (if_array (get_prop entry ''github'') (validateGitHubHandles K1)))
        (if_array (get_prop entry ''repos'')
           (\<lambda>urls s. and_then (validateRepositoryUrls K1 urls s)
              (\<lambda>s. (Completed, validateFlowEcosystemRequirements K1 J urls s)))))
        (if_truthy (get_prop entry ''wallets'') validateWalletAddresses))
        (if_array (get_prop entry ''x'') validateXHandles))))"
  shows
     "and_then (and_then (and_then (and_then
        (validateRequiredFields entry s)
        (if_array (get_prop entry ''github'') (validateGitHubHandles K2)))
        (if_array (get_prop entry ''repos'')
           (\<lambda>urls s. and_then (validateRepositoryUrls K2 urls s)
              (\<lambda>s. (Completed, validateFlowEcosystemRequirements K2 J urls s)))))
        (if_truthy (get_prop entry ''wallets'') validateWalletAddresses))
        (if_array (get_prop entry ''x'') validateXHandles) =
      and_then (and_then (and_then (and_then
        (validateRequiredFields entry s)
        (if_array (get_prop entry ''github'') (validateGitHubHandles K1)))
        (if_array (get_prop entry ''repos'')
           (\<lambda>urls s. and_then (validateRepositoryUrls K1 urls s)
              (\<lambda>s. (Completed, validateFlowEcosystemRequirements K1 J urls s)))))
        (if_truthy (get_prop entry ''wallets'') validateWalletAddresses))
        (if_array (get_prop entry ''x'') validateXHandles)"
  using assms
  by (intro and_then_stable [of K1 K2] if_array_stable [of K1 K2] validateGitHubHandles_stable
        repos_checks_stable refl grows_if_array grows_if_truthy grows_validateGitHubHandles
        grows_repos_checks grows_validateWalletAddresses grows_validateXHandles)

text \<open>
  Claim C9. Two runs over the same loaded input, from the same state of the instance,
  return the same result (errors and order included) and end in the same state whenever
  the service gives the second run the responses it gave the first, request by request;
  the two services may differ on everything the run does not ask.
\<close>
theorem same_responses_same_result:
  assumes "same_responses K1 K2 (log (snd (validateRegistry K1 J input s)))"
  shows "validateRegistry K2 J input s = validateRegistry K1 J input s"
proof (cases input)
  case (LoadThrows e)
  then show ?thesis by (simp add: validateRegistry_def)
next
  case (Loaded data)
  show ?thesis
  proof (cases "\<exists>items. data = JArray items \<and> entries_of items \<noteq> []")
    case False
    with Loaded show ?thesis
      by (cases data) (auto simp: validateRegistry_def)
  next
    case True
    then obtain items where d: "data = JArray items" "entries_of items \<noteq> []" by blast
    have "log (snd (finish r)) = log (snd r)" for r
      by (cases r, cases "fst r") (auto simp: finish_def parse_failure_def push_def Let_def)
    with assms Loaded d show ?thesis
      by (simp add: validateRegistry_def Let_def checks_stable)
  qed
qed

theorem same_responses_same_result_witness:
  "same_responses acme_octokit flaky_octokit
     (log (snd (validateRegistry acme_octokit no_JSON (Loaded (JArray [team_entry]))
        new_RegistryValidator))) \<and>
   acme_octokit [] (GetByUsername ''bob'') \<noteq> flaky_octokit [] (GetByUsername ''bob'') \<and>
   validateRegistry flaky_octokit no_JSON (Loaded (JArray [team_entry])) new_RegistryValidator =
   validateRegistry acme_octokit no_JSON (Loaded (JArray [team_entry])) new_RegistryValidator"
proof -
  have run: "snd (validateRegistry acme_octokit no_JSON (Loaded (JArray [team_entry]))
        new_RegistryValidator) =
     \<lparr>this_errors = [evm_message ''0x123''],
      log = [GetByUsername ''alice'', ReposGet ''acme'' ''widget'',
             GetContent ''acme'' ''widget'' ''README.md'']\<rparr>"
    by (simp add: validateRegistry_def entries_of_def team_entry_def widget_url_def
        validateRequiredFields_def if_array_def if_truthy_def and_then_def finish_def
        validateGitHubHandles_def validateGitHubHandles_body_def
        validateRepositoryUrls_def validateRepositoryUrls_body_def
        validateWalletAddresses_def check_address_def hex_address_def
        string_evals probe_evals acme_octokit_def)
  have h: "same_responses acme_octokit flaky_octokit
     (log (snd (validateRegistry acme_octokit no_JSON (Loaded (JArray [team_entry]))
        new_RegistryValidator)))"
    unfolding run
    by (simp add: same_responses_def flaky_octokit_def)
  have d: "acme_octokit [] (GetByUsername ''bob'') \<noteq> flaky_octokit [] (GetByUsername ''bob'')"
    by (simp add: acme_octokit_def flaky_octokit_def)
  show ?thesis
    using h d same_responses_same_result [OF h] by simp
qed


end
